theory Spec2Isabelle
  imports Main "HOL-Library.Word" "HOL-Library.Multiset"
begin

section \<open>Key mapper\<close>

text \<open>
  Both cache variants (\<^verbatim>\<open>image_cache_plain.cpp\<close> and \<^verbatim>\<open>image_cache_functools.cpp\<close>)
  derive the cache file name in the same way: the hexadecimal MD5 digest of the URL,
  followed by the extension that \<^verbatim>\<open>std::filesystem::path\<close> finds in the URL, or
  \<^verbatim>\<open>.jpg\<close> when that extension is empty.

  The MD5 primitive is OpenSSL's; it is a parameter \<open>MD5\<close> of the model: \<open>MD5 input i\<close>
  is byte \<open>i\<close> of the 16-byte digest of \<open>input\<close>.
\<close>

type_synonym path = string

type_synonym digest = "string \<Rightarrow> nat \<Rightarrow> 8 word"

definition MD5_DIGEST_LENGTH :: nat where
  "MD5_DIGEST_LENGTH = 16"

definition hex_digit :: "nat \<Rightarrow> char" where
  "hex_digit n = ''0123456789abcdef'' ! (n mod 16)"

text \<open>\<^verbatim>\<open>ss << std::hex << std::setw(2) << std::setfill('0') << (int)digest[i]\<close>\<close>

definition hex2 :: "8 word \<Rightarrow> string" where
  "hex2 b = [hex_digit (unat b div 16), hex_digit (unat b mod 16)]"

definition md5_hash :: "digest \<Rightarrow> string \<Rightarrow> string" where
  "md5_hash MD5 input = concat (map (\<lambda>i. hex2 (MD5 input i)) [0..<MD5_DIGEST_LENGTH])"

text \<open>
  \<^verbatim>\<open>std::filesystem::path::filename\<close> and \<^verbatim>\<open>extension\<close> on a POSIX path, as the
  C++17 standard defines them. The file name is the text after the last \<^verbatim>\<open>/\<close>. Its
  stem is the whole name when the name has no period other than a leading one or is
  \<^verbatim>\<open>.\<close> or \<^verbatim>\<open>..\<close>, and otherwise the prefix that ends before its last period; the
  extension is the rest of the name after the stem. So \<^verbatim>\<open>photo.png\<close> has the extension
  \<^verbatim>\<open>.png\<close>, \<^verbatim>\<open>photo.\<close> has \<^verbatim>\<open>.\<close>, and \<^verbatim>\<open>photo\<close>, \<^verbatim>\<open>.png\<close>, \<^verbatim>\<open>.\<close> and
  \<^verbatim>\<open>..\<close> have none.
\<close>

definition filename :: "path \<Rightarrow> string" where
  "filename p = rev (takeWhile (\<lambda>c. c \<noteq> CHR ''/'') (rev p))"

definition extension :: "path \<Rightarrow> string" where
  "extension p =
     (let f = filename p in
      if f = ''.'' \<or> f = ''..'' \<or> CHR ''.'' \<notin> set f then []
      else
        let stem = rev (tl (dropWhile (\<lambda>c. c \<noteq> CHR ''.'') (rev f)));
            suffix = rev (takeWhile (\<lambda>c. c \<noteq> CHR ''.'') (rev f))
        in if stem = [] then [] else CHR ''.'' # suffix)"

definition url_to_filename :: "digest \<Rightarrow> string \<Rightarrow> string" where
  "url_to_filename MD5 url =
     (let hash = md5_hash MD5 url;
          extension = extension url;
          extension = (if extension = [] then ''.jpg'' else extension)
      in hash @ extension)"

text \<open>
  \<^verbatim>\<open>cache_dir / name\<close>: \<^verbatim>\<open>operator/\<close> with a relative right operand puts a separator
  between the two unless the left operand is empty or already ends in one.
\<close>

definition path_append :: "path \<Rightarrow> string \<Rightarrow> path" where
  "path_append dir name =
     (if dir = [] \<or> last dir = CHR ''/'' then dir @ name else dir @ ''/'' @ name)"

definition get_cache_path :: "digest \<Rightarrow> path \<Rightarrow> string \<Rightarrow> path" where
  "get_cache_path MD5 dir url = path_append dir (url_to_filename MD5 url)"

text \<open>
  The key as the specification words it: the digest followed by the text after the last
  period of the trailing path segment, or by the default extension when there is no such
  text.
\<close>

definition text_after_last_dot :: "string \<Rightarrow> string option" where
  "text_after_last_dot f =
     (if CHR ''.'' \<in> set f then Some (rev (takeWhile (\<lambda>c. c \<noteq> CHR ''.'') (rev f))) else None)"

definition keyFor_spec :: "digest \<Rightarrow> string \<Rightarrow> string" where
  "keyFor_spec MD5 identifier =
     md5_hash MD5 identifier @
       (case text_after_last_dot (filename identifier) of
          None \<Rightarrow> ''.jpg''
        | Some t \<Rightarrow> if t = [] then ''.jpg'' else CHR ''.'' # t)"

text \<open>
  A stand-in for the external digest, used only to instantiate examples: the digest bytes
  are the last sixteen characters of the input, last first, padded with zeros. General
  theorems are stated for an arbitrary digest.
\<close>

definition example_digest :: digest where
  "example_digest input i = (if i < length input then of_char (rev input ! i) else 0)"

section \<open>Recency index of the plain variant: \<^verbatim>\<open>LRUCache\<close>\<close>

text \<open>
  \<^verbatim>\<open>LRUCache\<close> keeps a \<^verbatim>\<open>std::list\<close> of key/value pairs, most recently used first,
  and an \<^verbatim>\<open>unordered_map\<close> from each key to its list node. The model keeps the list;
  the map is the list's index: \<^verbatim>\<open>cache.find(key)\<close> succeeds exactly when the list has
  a pair with that key, and the node it yields is that pair.

  \<^verbatim>\<open>put\<close> on an empty list with \<^verbatim>\<open>max_size == 0\<close> calls \<^verbatim>\<open>items.back()\<close> and
  \<^verbatim>\<open>items.pop_back()\<close> on an empty list, which is undefined behaviour: the model
  returns \<open>None\<close> there.
\<close>

fun erase_key :: "'k \<Rightarrow> ('k \<times> 'v) list \<Rightarrow> ('k \<times> 'v) list" where
  "erase_key k [] = []"
| "erase_key k (kv # kvs) = (if fst kv = k then kvs else kv # erase_key k kvs)"

definition LRUCache_contains :: "'k \<Rightarrow> ('k \<times> 'v) list \<Rightarrow> bool" where
  "LRUCache_contains key items = (map_of items key \<noteq> None)"

definition LRUCache_put ::
  "nat \<Rightarrow> 'k \<Rightarrow> 'v \<Rightarrow> ('k \<times> 'v) list \<Rightarrow> ('k \<times> 'v) list option" where
  "LRUCache_put max_size key val items =
     (if LRUCache_contains key items then Some ((key, val) # erase_key key items)
      else if length items \<ge> max_size then
        (if items = [] then None else Some ((key, val) # butlast items))
      else Some ((key, val) # items))"

definition LRUCache_touch :: "'k \<Rightarrow> ('k \<times> 'v) list \<Rightarrow> ('k \<times> 'v) list" where
  "LRUCache_touch key items =
     (case map_of items key of
        Some v \<Rightarrow> (key, v) # erase_key key items
      | None \<Rightarrow> items)"

definition LRUCache_get :: "'k \<Rightarrow> ('k \<times> 'v) list \<Rightarrow> 'v option \<times> ('k \<times> 'v) list" where
  "LRUCache_get key items =
     (case map_of items key of
        Some v \<Rightarrow> (Some v, (key, v) # erase_key key items)
      | None \<Rightarrow> (None, items))"

definition LRUCache_size :: "('k \<times> 'v) list \<Rightarrow> nat" where
  "LRUCache_size items = length items"

section \<open>Recency index of the functools variant: \<^verbatim>\<open>access_order\<close>\<close>

text \<open>
  \<^verbatim>\<open>access_order\<close> is a \<^verbatim>\<open>std::list\<close> of URLs, most recently used last, with
  \<^verbatim>\<open>url_to_iterator\<close> as its index. \<^verbatim>\<open>touch_url\<close> erases the URL's node when the
  index has one, and then always appends the URL.
\<close>

definition touch_url :: "string \<Rightarrow> string list \<Rightarrow> string list" where
  "touch_url url access_order =
     (if url \<in> set access_order then remove1 url access_order else access_order) @ [url]"

section \<open>The world the cache runs in\<close>

text \<open>
  The cache directory is a list of regular files: path, modification time in seconds
  (\<^verbatim>\<open>time_t\<close>) and contents, at most one entry per path. What one call meets outside
  the program is an \<open>env\<close>: the outcome of \<^verbatim>\<open>curl_easy_perform\<close> (a failure code, or
  \<^verbatim>\<open>CURLE_OK\<close> with the response code and the body), what becomes of the
  \<^verbatim>\<open>std::ofstream\<close>, and the time a written file is stamped with.

  The stream has three outcomes. It cannot open the file: its writes do nothing and the
  directory stays as it was. It opens the file, which creates or truncates it, and the
  write then fails: the file is left with the bytes that reached it, a prefix of the body
  (none, for an empty file). Or the whole body is written. The code never looks at the
  stream's state.
\<close>

type_synonym file_entry = "path \<times> nat \<times> string"

datatype curl_result = CURLE_OK int string | CURLE_failed nat

datatype ofstream_outcome = Open_failed | Write_failed nat | Written

record env =
  response :: curl_result
  stream :: ofstream_outcome
  now :: nat

text \<open>The lines the code prints on \<^verbatim>\<open>std::cout\<close>, by their content.\<close>

datatype msg =
    Cached_image path nat
  | Error_HTTP int
  | Error_fetching_image nat
  | Using_cached_image path
  | Evicted_LRU_file path
  | Cleared_cache_directory path

definition fs_exists :: "path \<Rightarrow> file_entry list \<Rightarrow> bool" where
  "fs_exists p fs = (map_of fs p \<noteq> None)"

definition fs_remove :: "path \<Rightarrow> file_entry list \<Rightarrow> file_entry list" where
  "fs_remove p fs = filter (\<lambda>f. fst f \<noteq> p) fs"

text \<open>
  \<^verbatim>\<open>std::ofstream file(cache_path, std::ios::binary); file.write(...); file.close();\<close>
\<close>

definition ofstream_write :: "env \<Rightarrow> path \<Rightarrow> string \<Rightarrow> file_entry list \<Rightarrow> file_entry list" where
  "ofstream_write e p body fs =
     (case stream e of
        Open_failed \<Rightarrow> fs
      | Write_failed n \<Rightarrow> (p, now e, take n body) # fs_remove p fs
      | Written \<Rightarrow> (p, now e, body) # fs_remove p fs)"

text \<open>
  The statements that change the directory or a recency index, as the program executes
  them: the write of a cache file (whatever its outcome), \<^verbatim>\<open>fs::remove\<close>, and on the
  index \<^verbatim>\<open>put\<close>, \<^verbatim>\<open>touch\<close> or \<^verbatim>\<open>touch_url\<close>, \<^verbatim>\<open>erase\<close> and \<^verbatim>\<open>clear\<close>.
\<close>

datatype mutation =
    Write_file path
  | Remove_file path
  | Index_put string
  | Index_touch string
  | Index_erase string
  | Index_clear

text \<open>
  The members the two \<^verbatim>\<open>ImageCache\<close> classes share, with the directory's files, the
  URLs handed to \<^verbatim>\<open>curl_easy_perform\<close> so far, the lines printed so far and the
  mutating statements executed so far (each oldest first).
\<close>

record image_cache =
  cache_dir :: path
  max_size :: nat
  files :: "file_entry list"
  requests :: "string list"
  console :: "msg list"
  mutations :: "mutation list"

definition print :: "msg \<Rightarrow> 'a image_cache_scheme \<Rightarrow> 'a image_cache_scheme" where
  "print m c = c\<lparr>console := console c @ [m]\<rparr>"

definition executed :: "mutation \<Rightarrow> 'a image_cache_scheme \<Rightarrow> 'a image_cache_scheme" where
  "executed m c = c\<lparr>mutations := mutations c @ [m]\<rparr>"

definition curl_easy_perform :: "string \<Rightarrow> 'a image_cache_scheme \<Rightarrow> 'a image_cache_scheme" where
  "curl_easy_perform url c = c\<lparr>requests := requests c @ [url]\<rparr>"

definition is_cached :: "digest \<Rightarrow> 'a image_cache_scheme \<Rightarrow> string \<Rightarrow> bool" where
  "is_cached MD5 c url = fs_exists (get_cache_path MD5 (cache_dir c) url) (files c)"

section \<open>The plain variant (\<^verbatim>\<open>image_cache_plain.cpp\<close>)\<close>

text \<open>
  \<^verbatim>\<open>lru_cache\<close> is the \<^verbatim>\<open>LRUCache\<close> member; its \<^verbatim>\<open>max_size\<close> is the one of the
  \<^verbatim>\<open>ImageCache\<close> (the constructor hands the same value to both, nothing changes
  either). The operations return \<open>None\<close> where the C++ has undefined behaviour.
\<close>

record plain_cache = image_cache +
  lru_cache :: "(string \<times> path) list"

definition ImageCache_plain :: "path \<Rightarrow> nat \<Rightarrow> file_entry list \<Rightarrow> plain_cache" where
  "ImageCache_plain dir n fs =
     \<lparr>cache_dir = dir, max_size = n, files = fs, requests = [], console = [], mutations = [],
      lru_cache = []\<rparr>"

text \<open>\<^verbatim>\<open>evict_lru\<close>: the body of its \<^verbatim>\<open>if\<close> holds comments only.\<close>

definition evict_lru :: "plain_cache \<Rightarrow> plain_cache" where
  "evict_lru c = (if LRUCache_size (lru_cache c) \<ge> max_size c then c else c)"

definition fetch_impl_plain ::
  "digest \<Rightarrow> env \<Rightarrow> string \<Rightarrow> plain_cache \<Rightarrow> (path option \<times> plain_cache) option" where
  "fetch_impl_plain MD5 e url c =
     (let cache_path = get_cache_path MD5 (cache_dir c) url;
          c1 = evict_lru c;
          c2 = curl_easy_perform url c1
      in case response e of
           CURLE_OK response_code response_data \<Rightarrow>
             if response_code = 200 then
               let c3 = executed (Write_file cache_path)
                          (c2\<lparr>files := ofstream_write e cache_path response_data (files c2)\<rparr>)
               in (case LRUCache_put (max_size c3) url cache_path (lru_cache c3) of
                     None \<Rightarrow> None
                   | Some items \<Rightarrow>
                       Some (Some cache_path,
                             print (Cached_image cache_path (length response_data))
                               (executed (Index_put url) (c3\<lparr>lru_cache := items\<rparr>))))
             else Some (None, print (Error_HTTP response_code) c2)
         | CURLE_failed res \<Rightarrow> Some (None, print (Error_fetching_image res) c2))"

definition fetch_plain ::
  "digest \<Rightarrow> env \<Rightarrow> string \<Rightarrow> bool \<Rightarrow> plain_cache \<Rightarrow> (path option \<times> plain_cache) option" where
  "fetch_plain MD5 e url force_refresh c =
     (let cache_path = get_cache_path MD5 (cache_dir c) url
      in if \<not> force_refresh \<and> fs_exists cache_path (files c) then
           Some (Some cache_path,
                 print (Using_cached_image cache_path)
                   (executed (Index_touch url)
                      (c\<lparr>lru_cache := LRUCache_touch url (lru_cache c)\<rparr>)))
         else fetch_impl_plain MD5 e url c)"

definition get_plain ::
  "digest \<Rightarrow> env \<Rightarrow> string \<Rightarrow> plain_cache \<Rightarrow> (path option \<times> plain_cache) option" where
  "get_plain MD5 e url c =
     (let cache_path = get_cache_path MD5 (cache_dir c) url
      in if fs_exists cache_path (files c) then
           Some (Some cache_path,
                 executed (Index_touch url)
                   (c\<lparr>lru_cache := LRUCache_touch url (lru_cache c)\<rparr>))
         else fetch_plain MD5 e url False c)"

definition clear_plain :: "plain_cache \<Rightarrow> plain_cache" where
  "clear_plain c =
     print (Cleared_cache_directory (cache_dir c))
       (c\<lparr>files := [], lru_cache := [],
          mutations := mutations c @ map (\<lambda>f. Remove_file (fst f)) (files c) @ [Index_clear]\<rparr>)"

definition get_cache_size_plain :: "plain_cache \<Rightarrow> nat" where
  "get_cache_size_plain c = LRUCache_size (lru_cache c)"

section \<open>The functools variant (\<^verbatim>\<open>image_cache_functools.cpp\<close>)\<close>

record functools_cache = image_cache +
  access_order :: "string list"

definition ImageCache_functools :: "path \<Rightarrow> nat \<Rightarrow> file_entry list \<Rightarrow> functools_cache" where
  "ImageCache_functools dir n fs =
     \<lparr>cache_dir = dir, max_size = n, files = fs, requests = [], console = [], mutations = [],
      access_order = []\<rparr>"

text \<open>
  \<^verbatim>\<open>evict_oldest_file\<close> lists the directory as pairs of modification time and path,
  and when there are more than \<^verbatim>\<open>max_size\<close> of them sorts the pairs and removes the
  file of the first one. Pairs compare by time, then by path; the paths share the
  directory, so they compare as their strings do, byte by byte.
\<close>

fun string_less :: "string \<Rightarrow> string \<Rightarrow> bool" where
  "string_less [] [] = False"
| "string_less [] (y # ys) = True"
| "string_less (x # xs) [] = False"
| "string_less (x # xs) (y # ys) =
     ((of_char x :: nat) < of_char y \<or> (x = y \<and> string_less xs ys))"

definition pair_less :: "nat \<times> path \<Rightarrow> nat \<times> path \<Rightarrow> bool" where
  "pair_less a b = (fst a < fst b \<or> (fst a = fst b \<and> string_less (snd a) (snd b)))"

text \<open>Element 0 of the sorted vector: the least pair.\<close>

fun sorted_first :: "nat \<times> path \<Rightarrow> (nat \<times> path) list \<Rightarrow> nat \<times> path" where
  "sorted_first m [] = m"
| "sorted_first m (x # xs) = sorted_first (if pair_less x m then x else m) xs"

definition evict_oldest_file :: "functools_cache \<Rightarrow> functools_cache" where
  "evict_oldest_file c =
     (let listing = map (\<lambda>f. (fst (snd f), fst f)) (files c)
      in case listing of
           [] \<Rightarrow> c
         | x # xs \<Rightarrow>
             if length listing > max_size c then
               let victim = snd (sorted_first x xs)
               in print (Evicted_LRU_file victim)
                    (executed (Remove_file victim) (c\<lparr>files := fs_remove victim (files c)\<rparr>))
             else c)"

definition fetch_impl_functools ::
  "digest \<Rightarrow> env \<Rightarrow> string \<Rightarrow> functools_cache \<Rightarrow> path option \<times> functools_cache" where
  "fetch_impl_functools MD5 e url c =
     (let cache_path = get_cache_path MD5 (cache_dir c) url;
          c1 = evict_oldest_file c;
          c2 = curl_easy_perform url c1
      in case response e of
           CURLE_OK response_code response_data \<Rightarrow>
             if response_code = 200 then
               let c3 = executed (Write_file cache_path)
                          (c2\<lparr>files := ofstream_write e cache_path response_data (files c2)\<rparr>);
                   c4 = executed (Index_touch url)
                          (c3\<lparr>access_order := touch_url url (access_order c3)\<rparr>)
               in (Some cache_path,
                   print (Cached_image cache_path (length response_data)) c4)
             else (None, print (Error_HTTP response_code) c2)
         | CURLE_failed res \<Rightarrow> (None, print (Error_fetching_image res) c2))"

definition get_impl ::
  "digest \<Rightarrow> env \<Rightarrow> string \<Rightarrow> functools_cache \<Rightarrow> path option \<times> functools_cache" where
  "get_impl MD5 e url c =
     (let cache_path = get_cache_path MD5 (cache_dir c) url
      in if fs_exists cache_path (files c) then
           (Some cache_path,
            print (Using_cached_image cache_path)
              (executed (Index_touch url)
                 (c\<lparr>access_order := touch_url url (access_order c)\<rparr>)))
         else fetch_impl_functools MD5 e url c)"

text \<open>
  The first statement of \<^verbatim>\<open>fetch\<close> under \<^verbatim>\<open>force_refresh\<close>: the URL's node is erased
  from \<^verbatim>\<open>access_order\<close> and \<^verbatim>\<open>url_to_iterator\<close> when the index has one.
\<close>

definition erase_url :: "string \<Rightarrow> functools_cache \<Rightarrow> functools_cache" where
  "erase_url url c =
     (if url \<in> set (access_order c) then
        executed (Index_erase url) (c\<lparr>access_order := remove1 url (access_order c)\<rparr>)
      else c)"

definition fetch_functools ::
  "digest \<Rightarrow> env \<Rightarrow> string \<Rightarrow> bool \<Rightarrow> functools_cache \<Rightarrow> path option \<times> functools_cache" where
  "fetch_functools MD5 e url force_refresh c =
     (if force_refresh then fetch_impl_functools MD5 e url (erase_url url c)
      else get_impl MD5 e url c)"

definition get_functools ::
  "digest \<Rightarrow> env \<Rightarrow> string \<Rightarrow> functools_cache \<Rightarrow> path option \<times> functools_cache" where
  "get_functools MD5 e url c = get_impl MD5 e url c"

definition clear_functools :: "functools_cache \<Rightarrow> functools_cache" where
  "clear_functools c =
     print (Cleared_cache_directory (cache_dir c))
       (c\<lparr>files := [], access_order := [],
          mutations := mutations c @ map (\<lambda>f. Remove_file (fst f)) (files c) @ [Index_clear]\<rparr>)"

definition get_cache_size_functools :: "functools_cache \<Rightarrow> nat" where
  "get_cache_size_functools c = length (access_order c)"

section \<open>Client programs\<close>

text \<open>
  A client calls the public operations one after the other, as \<^verbatim>\<open>main\<close> does in its
  loop over \<^verbatim>\<open>test_urls\<close>; each call meets an environment of its own.
\<close>

datatype call = Get string | Fetch string bool | Clear

fun call_plain :: "digest \<Rightarrow> env \<times> call \<Rightarrow> plain_cache \<Rightarrow> plain_cache option" where
  "call_plain MD5 (e, Get url) c = map_option snd (get_plain MD5 e url c)"
| "call_plain MD5 (e, Fetch url force_refresh) c =
     map_option snd (fetch_plain MD5 e url force_refresh c)"
| "call_plain MD5 (e, Clear) c = Some (clear_plain c)"

fun run_plain :: "digest \<Rightarrow> (env \<times> call) list \<Rightarrow> plain_cache \<Rightarrow> plain_cache option" where
  "run_plain MD5 [] c = Some c"
| "run_plain MD5 (x # xs) c =
     (case call_plain MD5 x c of None \<Rightarrow> None | Some c' \<Rightarrow> run_plain MD5 xs c')"

fun call_functools :: "digest \<Rightarrow> env \<times> call \<Rightarrow> functools_cache \<Rightarrow> functools_cache" where
  "call_functools MD5 (e, Get url) c = snd (get_functools MD5 e url c)"
| "call_functools MD5 (e, Fetch url force_refresh) c =
     snd (fetch_functools MD5 e url force_refresh c)"
| "call_functools MD5 (e, Clear) c = clear_functools c"

fun run_functools ::
  "digest \<Rightarrow> (env \<times> call) list \<Rightarrow> functools_cache \<Rightarrow> functools_cache" where
  "run_functools MD5 [] c = c"
| "run_functools MD5 (x # xs) c = run_functools MD5 xs (call_functools MD5 x c)"

text \<open>
  The test of \<^verbatim>\<open>fetch_impl\<close> for a usable response
  (\<^verbatim>\<open>res == CURLE_OK\<close> and \<^verbatim>\<open>response_code == 200\<close>), and the line it prints
  otherwise.
\<close>

definition transfer_ok :: "env \<Rightarrow> bool" where
  "transfer_ok e = (case response e of CURLE_OK response_code _ \<Rightarrow> response_code = 200
                    | CURLE_failed _ \<Rightarrow> False)"

definition error_line :: "env \<Rightarrow> msg" where
  "error_line e = (case response e of CURLE_OK response_code _ \<Rightarrow> Error_HTTP response_code
                   | CURLE_failed res \<Rightarrow> Error_fetching_image res)"

text \<open>
  The environments of the examples, at time \<open>t\<close>: the transfer succeeds with status 200
  and the file is written; it succeeds but the file cannot be opened for writing; it
  succeeds and the file is opened, but the write fails after five bytes; the server
  answers 404; the transfer times out (\<^verbatim>\<open>CURLE_OPERATION_TIMEDOUT\<close> is 28). And the
  URLs of \<^verbatim>\<open>main\<close>.
\<close>

definition served_at :: "nat \<Rightarrow> env" where
  "served_at t = \<lparr>response = CURLE_OK 200 ''image bytes'', stream = Written, now = t\<rparr>"

definition unwritable_at :: "nat \<Rightarrow> env" where
  "unwritable_at t = \<lparr>response = CURLE_OK 200 ''image bytes'', stream = Open_failed, now = t\<rparr>"

definition truncated_at :: "nat \<Rightarrow> env" where
  "truncated_at t = \<lparr>response = CURLE_OK 200 ''image bytes'', stream = Write_failed 5, now = t\<rparr>"

definition not_found_at :: "nat \<Rightarrow> env" where
  "not_found_at t = \<lparr>response = CURLE_OK 404 ''Not Found'', stream = Written, now = t\<rparr>"

definition timed_out_at :: "nat \<Rightarrow> env" where
  "timed_out_at t = \<lparr>response = CURLE_failed 28, stream = Written, now = t\<rparr>"

definition test_urls :: "string list" where
  "test_urls =
     [''https://httpbin.org/image/jpeg'', ''https://httpbin.org/image/png'',
      ''https://httpbin.org/image/webp'', ''https://httpbin.org/image/svg'']"

text \<open>
  The caches of the examples, for the digest \<open>example_digest\<close>: after \<^verbatim>\<open>main\<close>'s first
  URL has been fetched at time 1 into an empty directory with capacity 3, and after its
  second URL has then been fetched at time 2.
\<close>

definition plain_after_jpeg :: plain_cache where
  "plain_after_jpeg =
     \<lparr>cache_dir = ''.image_cache'', max_size = 3,
      files = [(''.image_cache/6765706a2f6567616d692f67726f2e6e.jpg'', 1, ''image bytes'')],
      requests = [''https://httpbin.org/image/jpeg''],
      console = [Cached_image ''.image_cache/6765706a2f6567616d692f67726f2e6e.jpg'' 11],
      mutations = [Write_file ''.image_cache/6765706a2f6567616d692f67726f2e6e.jpg'',
                   Index_put ''https://httpbin.org/image/jpeg''],
      lru_cache = [(''https://httpbin.org/image/jpeg'',
                    ''.image_cache/6765706a2f6567616d692f67726f2e6e.jpg'')]\<rparr>"

definition functools_after_jpeg :: functools_cache where
  "functools_after_jpeg =
     \<lparr>cache_dir = ''.image_cache'', max_size = 3,
      files = [(''.image_cache/6765706a2f6567616d692f67726f2e6e.jpg'', 1, ''image bytes'')],
      requests = [''https://httpbin.org/image/jpeg''],
      console = [Cached_image ''.image_cache/6765706a2f6567616d692f67726f2e6e.jpg'' 11],
      mutations = [Write_file ''.image_cache/6765706a2f6567616d692f67726f2e6e.jpg'',
                   Index_touch ''https://httpbin.org/image/jpeg''],
      access_order = [''https://httpbin.org/image/jpeg'']\<rparr>"

definition plain_after_png :: plain_cache where
  "plain_after_png =
     \<lparr>cache_dir = ''.image_cache'', max_size = 3,
      files = [(''.image_cache/676e702f6567616d692f67726f2e6e69.jpg'', 2, ''image bytes''),
               (''.image_cache/6765706a2f6567616d692f67726f2e6e.jpg'', 1, ''image bytes'')],
      requests = [''https://httpbin.org/image/jpeg'', ''https://httpbin.org/image/png''],
      console = [Cached_image ''.image_cache/6765706a2f6567616d692f67726f2e6e.jpg'' 11,
                 Cached_image ''.image_cache/676e702f6567616d692f67726f2e6e69.jpg'' 11],
      mutations = [Write_file ''.image_cache/6765706a2f6567616d692f67726f2e6e.jpg'',
                   Index_put ''https://httpbin.org/image/jpeg'',
                   Write_file ''.image_cache/676e702f6567616d692f67726f2e6e69.jpg'',
                   Index_put ''https://httpbin.org/image/png''],
      lru_cache = [(''https://httpbin.org/image/png'',
                    ''.image_cache/676e702f6567616d692f67726f2e6e69.jpg''),
                   (''https://httpbin.org/image/jpeg'',
                    ''.image_cache/6765706a2f6567616d692f67726f2e6e.jpg'')]\<rparr>"

definition functools_after_png :: functools_cache where
  "functools_after_png =
     \<lparr>cache_dir = ''.image_cache'', max_size = 3,
      files = [(''.image_cache/676e702f6567616d692f67726f2e6e69.jpg'', 2, ''image bytes''),
               (''.image_cache/6765706a2f6567616d692f67726f2e6e.jpg'', 1, ''image bytes'')],
      requests = [''https://httpbin.org/image/jpeg'', ''https://httpbin.org/image/png''],
      console = [Cached_image ''.image_cache/6765706a2f6567616d692f67726f2e6e.jpg'' 11,
                 Cached_image ''.image_cache/676e702f6567616d692f67726f2e6e69.jpg'' 11],
      mutations = [Write_file ''.image_cache/6765706a2f6567616d692f67726f2e6e.jpg'',
                   Index_touch ''https://httpbin.org/image/jpeg'',
                   Write_file ''.image_cache/676e702f6567616d692f67726f2e6e69.jpg'',
                   Index_touch ''https://httpbin.org/image/png''],
      access_order = [''https://httpbin.org/image/jpeg'', ''https://httpbin.org/image/png'']\<rparr>"

section \<open>The recency indexes\<close>

lemma erase_key_filter:
  "distinct (map fst items) \<Longrightarrow> erase_key k items = filter (\<lambda>kv. fst kv \<noteq> k) items"
proof (induction items)
  case Nil
  then show ?case by simp
next
  case (Cons kv kvs)
  show ?case
  proof (cases "fst kv = k")
    case True
    with Cons.prems have "k \<notin> fst ` set kvs" by auto
    then have "filter (\<lambda>kv. fst kv \<noteq> k) kvs = kvs"
      by (auto simp: filter_id_conv)
    with True show ?thesis by simp
  next
    case False
    with Cons show ?thesis by simp
  qed
qed

lemma length_erase_key:
  "map_of items k \<noteq> None \<Longrightarrow> Suc (length (erase_key k items)) = length items"
  by (induction items) (auto split: if_splits)

lemma LRUCache_touch_idem:
  "LRUCache_touch key (LRUCache_touch key items) = LRUCache_touch key items"
  by (simp add: LRUCache_touch_def split: option.splits)

lemma touch_url_filter:
  "distinct ao \<Longrightarrow> touch_url url ao = filter (\<lambda>u. u \<noteq> url) ao @ [url]"
proof (induction ao)
  case Nil
  then show ?case by (simp add: touch_url_def)
next
  case (Cons a ao)
  then have "a \<noteq> url \<Longrightarrow> touch_url url ao = filter (\<lambda>u. u \<noteq> url) ao @ [url]"
    by simp
  moreover have "a = url \<Longrightarrow> filter (\<lambda>u. u \<noteq> url) ao = ao"
    using Cons.prems by (auto simp: filter_id_conv)
  ultimately show ?case
    by (auto simp: touch_url_def split: if_splits)
qed

lemma touch_url_idem:
  "distinct ao \<Longrightarrow> touch_url url (touch_url url ao) = touch_url url ao"
  by (simp add: touch_url_filter)

text \<open>
  Claim C8, as amended. With the index well formed (no key twice, which every call
  preserves: \<open>plain_index_distinct\<close>, \<open>functools_index_distinct\<close>): \<^verbatim>\<open>LRUCache::touch\<close>
  moves a present key to the front (the most recent position) and leaves the order of the
  others as it was, and does nothing when the key is absent; \<^verbatim>\<open>touch_url\<close> of the
  functools variant moves the URL to the back (its most recent position) when present and
  appends it when absent. Both are idempotent.
\<close>

theorem touch_semantics:
  assumes "distinct (map fst items)" and "distinct order"
  shows "(map_of items key = Some v \<longrightarrow>
            LRUCache_touch key items = (key, v) # filter (\<lambda>kv. fst kv \<noteq> key) items)
       \<and> (\<not> LRUCache_contains key items \<longrightarrow> LRUCache_touch key items = items)
       \<and> LRUCache_touch key (LRUCache_touch key items) = LRUCache_touch key items
       \<and> touch_url url order = filter (\<lambda>u. u \<noteq> url) order @ [url]
       \<and> (url \<notin> set order \<longrightarrow> touch_url url order = order @ [url])
       \<and> touch_url url (touch_url url order) = touch_url url order"
proof -
  have "map_of items key = Some v \<Longrightarrow>
          LRUCache_touch key items = (key, v) # filter (\<lambda>kv. fst kv \<noteq> key) items"
    using assms(1) by (simp add: LRUCache_touch_def erase_key_filter)
  moreover have "\<not> LRUCache_contains key items \<Longrightarrow> LRUCache_touch key items = items"
    by (simp add: LRUCache_touch_def LRUCache_contains_def)
  moreover have "url \<notin> set order \<Longrightarrow> touch_url url order = order @ [url]"
    by (simp add: touch_url_def)
  ultimately show ?thesis
    using assms(2) by (simp add: LRUCache_touch_idem touch_url_idem touch_url_filter)
qed

theorem touch_semantics_witness:
  "distinct (map fst [(''a'', ''pa''), (''b'', ''pb'')]) \<and> distinct [''a'', ''b''] \<and>
   map_of [(''a'', ''pa''), (''b'', ''pb'')] ''b'' = Some ''pb'' \<and>
   LRUCache_touch ''b'' [(''a'', ''pa''), (''b'', ''pb'')] = [(''b'', ''pb''), (''a'', ''pa'')] \<and>
   \<not> LRUCache_contains ''c'' [(''a'', ''pa''), (''b'', ''pb'')] \<and>
   LRUCache_touch ''c'' [(''a'', ''pa''), (''b'', ''pb'')] = [(''a'', ''pa''), (''b'', ''pb'')] \<and>
   touch_url ''a'' [''a'', ''b''] = [''b'', ''a''] \<and>
   ''c'' \<notin> set [''a'', ''b''] \<and>
   touch_url ''c'' [''a'', ''b''] = [''a'', ''b'', ''c'']"
  using touch_semantics[where items = "[(''a'', ''pa''), (''b'', ''pb'')]" and order = "[''a'', ''b'']"
      and key = "''b''" and v = "''pb''" and url = "''a''"]
    touch_semantics[where items = "[(''a'', ''pa''), (''b'', ''pb'')]" and order = "[''a'', ''b'']"
      and key = "''c''" and url = "''c''"]
  by (simp add: LRUCache_contains_def)

text \<open>
  Claim C8 as stated fails on \<^verbatim>\<open>touch_url\<close>: touching an absent URL is not a no-op,
  the URL is inserted.
\<close>

theorem touch_url_absent_counterexample:
  "\<not> (touch_url ''https://httpbin.org/image/png'' [] = [])"
  by (simp add: touch_url_def)


section \<open>Key derivation\<close>

lemma length_md5_hash: "length (md5_hash MD5 input) = 32"
  by (simp add: md5_hash_def MD5_DIGEST_LENGTH_def hex2_def length_concat comp_def sum_list_triv)

lemma takeWhile_upto:
  "c \<notin> set xs \<Longrightarrow> takeWhile (\<lambda>x. x \<noteq> c) (xs @ c # ys) = xs"
  by (induction xs) auto

lemma dropWhile_upto:
  "c \<notin> set xs \<Longrightarrow> dropWhile (\<lambda>x. x \<noteq> c) (xs @ c # ys) = c # ys"
  by (induction xs) auto

lemma suffix_after_last_dot:
  "CHR ''.'' \<notin> set t \<Longrightarrow>
     rev (takeWhile (\<lambda>c. c \<noteq> CHR ''.'') (rev (s @ CHR ''.'' # t))) = t"
  using takeWhile_upto[of "CHR ''.''" "rev t" "rev s"] by simp

lemma stem_before_last_dot:
  "CHR ''.'' \<notin> set t \<Longrightarrow>
     rev (tl (dropWhile (\<lambda>c. c \<noteq> CHR ''.'') (rev (s @ CHR ''.'' # t)))) = s"
  using dropWhile_upto[of "CHR ''.''" "rev t" "rev s"] by simp

lemma last_dot_split:
  assumes "CHR ''.'' \<in> set f"
  shows "\<exists>s t. f = s @ CHR ''.'' # t \<and> CHR ''.'' \<notin> set t"
proof -
  from assms have "CHR ''.'' \<in> set (rev f)" by simp
  then obtain ys zs where "rev f = ys @ CHR ''.'' # zs" and "CHR ''.'' \<notin> set ys"
    using split_list_first[of "CHR ''.''" "rev f"] by blast
  then have "f = rev zs @ CHR ''.'' # rev ys" and "CHR ''.'' \<notin> set (rev ys)"
    by (auto simp: rev_swap)
  then show ?thesis by blast
qed

lemma extension_split:
  assumes "filename p = s @ CHR ''.'' # t" and "CHR ''.'' \<notin> set t"
  shows "extension p = (if s = [] \<or> filename p = ''..'' then [] else CHR ''.'' # t)"
proof -
  have suffix: "rev (takeWhile (\<lambda>c. c \<noteq> CHR ''.'') (rev (filename p))) = t"
    using assms suffix_after_last_dot by metis
  have stem: "rev (tl (dropWhile (\<lambda>c. c \<noteq> CHR ''.'') (rev (filename p)))) = s"
    using assms stem_before_last_dot by metis
  have dot: "CHR ''.'' \<in> set (filename p)"
    using assms by simp
  have one: "filename p = ''.'' \<Longrightarrow> s = []"
    using assms by (cases s) auto
  show ?thesis
    unfolding extension_def Let_def suffix stem
    using dot one by auto
qed

lemma extension_no_dot: "CHR ''.'' \<notin> set (filename p) \<Longrightarrow> extension p = []"
  by (simp add: extension_def)

lemma filename_decomp:
  "\<exists>d. p = d @ filename p \<and> (d = [] \<or> last d = CHR ''/'')"
proof -
  obtain ys where ys: "ys = takeWhile (\<lambda>c. c \<noteq> CHR ''/'') (rev p)" by simp
  obtain zs where zs: "zs = dropWhile (\<lambda>c. c \<noteq> CHR ''/'') (rev p)" by simp
  have "rev p = ys @ zs" by (simp add: ys zs)
  then have p: "p = rev zs @ rev ys" by (simp add: rev_swap)
  have "zs = [] \<or> hd zs = CHR ''/''"
    using hd_dropWhile[of "\<lambda>c. c \<noteq> CHR ''/''" "rev p"] by (auto simp: zs)
  then have "rev zs = [] \<or> last (rev zs) = CHR ''/''"
    by (auto simp: last_rev)
  with p show ?thesis by (auto simp: filename_def ys)
qed

lemma filename_no_slash: "CHR ''/'' \<notin> set (filename p)"
  using set_takeWhileD[of "CHR ''/''" "\<lambda>c. c \<noteq> CHR ''/''" "rev p"]
  by (auto simp: filename_def)


lemma url_to_filename_split:
  assumes "filename url = s @ CHR ''.'' # t" and "CHR ''.'' \<notin> set t"
  shows "url_to_filename MD5 url =
           md5_hash MD5 url @ (if s = [] \<or> filename url = ''..'' then ''.jpg'' else CHR ''.'' # t)"
  using extension_split[OF assms] by (simp add: url_to_filename_def)

lemma keyFor_spec_split:
  assumes "filename url = s @ CHR ''.'' # t" and "CHR ''.'' \<notin> set t"
  shows "keyFor_spec MD5 url = md5_hash MD5 url @ (if t = [] then ''.jpg'' else CHR ''.'' # t)"
proof -
  have "text_after_last_dot (filename url) = Some t"
    using assms suffix_after_last_dot[of t s] by (simp add: text_after_last_dot_def)
  then show ?thesis by (simp add: keyFor_spec_def)
qed

lemma url_to_filename_refines:
  assumes trailing: "\<not> (filename url \<noteq> [] \<and> last (filename url) = CHR ''.'' \<and>
                        filename url \<noteq> ''.'' \<and> filename url \<noteq> ''..'')"
    and leading: "\<not> (\<exists>t. filename url = CHR ''.'' # t \<and> t \<noteq> [] \<and> CHR ''.'' \<notin> set t)"
  shows "url_to_filename MD5 url = keyFor_spec MD5 url"
proof (cases "CHR ''.'' \<in> set (filename url)")
  case False
  then show ?thesis
    by (simp add: url_to_filename_def keyFor_spec_def extension_no_dot text_after_last_dot_def)
next
  case True
  then obtain s t where f: "filename url = s @ CHR ''.'' # t" and t: "CHR ''.'' \<notin> set t"
    using last_dot_split by blast
  show ?thesis
  proof (cases "s = []")
    case True
    with f t leading have "t = []" by auto
    with True show ?thesis
      using url_to_filename_split[OF f t] keyFor_spec_split[OF f t] by simp
  next
    case False
    show ?thesis
    proof (cases "t = []")
      case True
      with f trailing have "filename url = ''.'' \<or> filename url = ''..''" by auto
      with False f have "filename url = ''..''" by (auto simp: append_eq_Cons_conv)
      with True show ?thesis
        using url_to_filename_split[OF f t] keyFor_spec_split[OF f t] by simp
    next
      case t': False
      then have "filename url \<noteq> ''..''" using f False t
        by (metis append_butlast_last_id last_ConsL last_ConsR last_appendR list.distinct(1) list.set_intros(1) last_in_set)
      with False t' show ?thesis
        using url_to_filename_split[OF f t] keyFor_spec_split[OF f t] by simp
    qed
  qed
qed

text \<open>
  Claim C9, as amended. The key is a function of the identifier (and the digest
  primitive) alone. The file name is the text after the last \<^verbatim>\<open>/\<close> of the identifier;
  the digest part has 32 characters. When the file name is \<open>s.t\<close> with \<open>t\<close> free of
  periods, \<open>s\<close> not empty and the name not \<^verbatim>\<open>..\<close>, the key is the digest followed by
  \<open>.t\<close>, also when \<open>t\<close> is empty; when the file name has no period, is \<^verbatim>\<open>..\<close>, or has
  its only period in first position, the key is the digest followed by \<^verbatim>\<open>.jpg\<close>. So the
  key is the one the specification words, unless the file name ends in a period (and is
  neither \<^verbatim>\<open>.\<close> nor \<^verbatim>\<open>..\<close>) or is a period followed by a non-empty text without
  periods.
\<close>

theorem key_derivation:
  "(\<exists>d. url = d @ filename url \<and> (d = [] \<or> last d = CHR ''/'')) \<and>
   CHR ''/'' \<notin> set (filename url) \<and>
   length (md5_hash MD5 url) = 32 \<and>
   (filename url = s @ CHR ''.'' # t \<and> CHR ''.'' \<notin> set t \<and> s \<noteq> [] \<and> filename url \<noteq> ''..'' \<longrightarrow>
      url_to_filename MD5 url = md5_hash MD5 url @ CHR ''.'' # t) \<and>
   (CHR ''.'' \<notin> set (filename url) \<or> filename url = ''..'' \<or>
      (filename url = CHR ''.'' # t \<and> CHR ''.'' \<notin> set t) \<longrightarrow>
      url_to_filename MD5 url = md5_hash MD5 url @ ''.jpg'') \<and>
   (\<not> (filename url \<noteq> [] \<and> last (filename url) = CHR ''.'' \<and>
        filename url \<noteq> ''.'' \<and> filename url \<noteq> ''..'') \<and>
    \<not> (\<exists>t. filename url = CHR ''.'' # t \<and> t \<noteq> [] \<and> CHR ''.'' \<notin> set t) \<longrightarrow>
      url_to_filename MD5 url = keyFor_spec MD5 url)"
proof -
  have a: "url_to_filename MD5 url = md5_hash MD5 url @ CHR ''.'' # t"
    if h: "filename url = s @ CHR ''.'' # t \<and> CHR ''.'' \<notin> set t \<and> s \<noteq> [] \<and> filename url \<noteq> ''..''"
  proof -
    from h have "\<not> (s = [] \<or> filename url = ''..'')" by blast
    then have "(if s = [] \<or> filename url = ''..'' then ''.jpg'' else CHR ''.'' # t) = CHR ''.'' # t"
      by (rule if_not_P)
    moreover from h have "url_to_filename MD5 url =
        md5_hash MD5 url @ (if s = [] \<or> filename url = ''..'' then ''.jpg'' else CHR ''.'' # t)"
      using url_to_filename_split by blast
    ultimately show ?thesis by (simp only:)
  qed
  have b1: "CHR ''.'' \<notin> set (filename url) \<Longrightarrow> url_to_filename MD5 url = md5_hash MD5 url @ ''.jpg''"
    by (simp add: url_to_filename_def extension_no_dot)
  have b2: "filename url = ''..'' \<Longrightarrow> url_to_filename MD5 url = md5_hash MD5 url @ ''.jpg''"
    by (simp add: url_to_filename_def extension_def)
  have b3: "filename url = CHR ''.'' # t \<and> CHR ''.'' \<notin> set t \<Longrightarrow>
      url_to_filename MD5 url = md5_hash MD5 url @ ''.jpg''"
    using url_to_filename_split[of url "[]" t MD5] by simp
  show ?thesis
    using a b1 b2 b3 filename_decomp[of url] filename_no_slash[of url]
      url_to_filename_refines[of url MD5] length_md5_hash[of MD5 url]
    by blast
qed

theorem key_derivation_witness:
  "filename ''https://example.org/a/photo.png'' = ''photo'' @ CHR ''.'' # ''png'' \<and>
   url_to_filename example_digest ''https://example.org/a/photo.png'' =
     md5_hash example_digest ''https://example.org/a/photo.png'' @ ''.png'' \<and>
   CHR ''.'' \<notin> set (filename ''https://httpbin.org/image/jpeg'') \<and>
   url_to_filename example_digest ''https://httpbin.org/image/jpeg'' =
     md5_hash example_digest ''https://httpbin.org/image/jpeg'' @ ''.jpg'' \<and>
   url_to_filename example_digest ''https://httpbin.org/image/jpeg'' =
     keyFor_spec example_digest ''https://httpbin.org/image/jpeg''"
  using key_derivation[of "''https://example.org/a/photo.png''" example_digest "''photo''" "''png''"]
    key_derivation[of "''https://httpbin.org/image/jpeg''" example_digest "[]" "[]"]
  by (simp add: filename_def keyFor_spec_def text_after_last_dot_def)

text \<open>
  Claim C9 as stated fails for an identifier that ends in a period: the text after the
  last period is empty, but the key ends in \<^verbatim>\<open>.\<close>, not in the default extension.
\<close>

theorem key_trailing_period_counterexample:
  "url_to_filename example_digest ''https://example.org/a/photo.'' =
     md5_hash example_digest ''https://example.org/a/photo.'' @ ''.'' \<and>
   keyFor_spec example_digest ''https://example.org/a/photo.'' =
     md5_hash example_digest ''https://example.org/a/photo.'' @ ''.jpg'' \<and>
   url_to_filename example_digest ''https://example.org/a/photo.'' \<noteq>
     keyFor_spec example_digest ''https://example.org/a/photo.''"
  by (simp add: url_to_filename_def keyFor_spec_def extension_def filename_def
      text_after_last_dot_def)

section \<open>Frame lemmas and the plain index\<close>

lemma print_simps [simp]:
  "files (print m c) = files c"
  "requests (print m c) = requests c"
  "console (print m c) = console c @ [m]"
  "cache_dir (print m c) = cache_dir c"
  "max_size (print m c) = max_size c"
  "mutations (print m c) = mutations c"
  by (simp_all add: print_def)

lemma executed_simps [simp]:
  "files (executed m c) = files c"
  "requests (executed m c) = requests c"
  "console (executed m c) = console c"
  "cache_dir (executed m c) = cache_dir c"
  "max_size (executed m c) = max_size c"
  "mutations (executed m c) = mutations c @ [m]"
  by (simp_all add: executed_def)

lemma executed_plain [simp]: "lru_cache (executed m c) = lru_cache c"
  by (simp add: executed_def)

lemma executed_functools [simp]: "access_order (executed m c) = access_order c"
  by (simp add: executed_def)

lemma print_plain [simp]: "lru_cache (print m c) = lru_cache c"
  by (simp add: print_def)

lemma print_functools [simp]: "access_order (print m c) = access_order c"
  by (simp add: print_def)

lemma curl_easy_perform_simps [simp]:
  "files (curl_easy_perform url c) = files c"
  "requests (curl_easy_perform url c) = requests c @ [url]"
  "console (curl_easy_perform url c) = console c"
  "cache_dir (curl_easy_perform url c) = cache_dir c"
  "max_size (curl_easy_perform url c) = max_size c"
  "mutations (curl_easy_perform url c) = mutations c"
  by (simp_all add: curl_easy_perform_def)

lemma curl_easy_perform_plain [simp]: "lru_cache (curl_easy_perform url c) = lru_cache c"
  by (simp add: curl_easy_perform_def)

lemma curl_easy_perform_functools [simp]:
  "access_order (curl_easy_perform url c) = access_order c"
  by (simp add: curl_easy_perform_def)

lemma evict_lru_id [simp]: "evict_lru c = c"
  by (simp add: evict_lru_def)

lemma evict_oldest_file_simps [simp]:
  "access_order (evict_oldest_file c) = access_order c"
  "requests (evict_oldest_file c) = requests c"
  "cache_dir (evict_oldest_file c) = cache_dir c"
  "max_size (evict_oldest_file c) = max_size c"
  by (simp_all add: evict_oldest_file_def Let_def split: list.splits)

text \<open>
  What \<^verbatim>\<open>evict_oldest_file\<close> does to the directory depends on the directory and the
  capacity only.
\<close>

lemma evict_oldest_file_files_cong:
  assumes "files c1 = files c2" and "max_size c1 = max_size c2"
  shows "files (evict_oldest_file c1) = files (evict_oldest_file c2)"
  using assms by (simp add: evict_oldest_file_def Let_def split: list.splits)

lemma erase_url_simps [simp]:
  "files (erase_url url c) = files c"
  "requests (erase_url url c) = requests c"
  "console (erase_url url c) = console c"
  "cache_dir (erase_url url c) = cache_dir c"
  "max_size (erase_url url c) = max_size c"
  "access_order (erase_url url c) = remove1 url (access_order c)"
  "mutations (erase_url url c) =
     mutations c @ (if url \<in> set (access_order c) then [Index_erase url] else [])"
  by (simp_all add: erase_url_def remove1_idem)

lemma evict_oldest_file_erase_url [simp]:
  "files (evict_oldest_file (erase_url url c)) = files (evict_oldest_file c)"
  by (rule evict_oldest_file_files_cong) simp_all

lemma fs_exists_write:
  "fs_exists p (ofstream_write e p body fs) = (stream e \<noteq> Open_failed \<or> fs_exists p fs)"
  by (simp add: fs_exists_def ofstream_write_def split: ofstream_outcome.splits)

lemma LRUCache_put_defined:
  "0 < n \<Longrightarrow> \<exists>items'. LRUCache_put n k v items = Some items'"
  by (auto simp: LRUCache_put_def)

lemma LRUCache_put_length:
  assumes "LRUCache_put n k v items = Some items'" and "length items \<le> n"
  shows "length items' \<le> n"
proof (cases "LRUCache_contains k items")
  case True
  then have "Suc (length (erase_key k items)) = length items"
    by (simp add: LRUCache_contains_def length_erase_key)
  with assms True show ?thesis by (auto simp: LRUCache_put_def)
next
  case False
  with assms show ?thesis
    by (auto simp: LRUCache_put_def split: if_splits)
qed

lemma LRUCache_put_front:
  "LRUCache_put n k v items = Some items' \<Longrightarrow> \<exists>rest. items' = (k, v) # rest"
  by (auto simp: LRUCache_put_def split: if_splits)

lemma LRUCache_touch_length [simp]: "length (LRUCache_touch k items) = length items"
  by (simp add: LRUCache_touch_def length_erase_key split: option.splits)

lemma mset_erase_key:
  "map_of items k = Some v \<Longrightarrow> add_mset (k, v) (mset (erase_key k items)) = mset items"
  by (induction items) (auto split: if_splits)

lemma LRUCache_touch_mset [simp]: "mset (LRUCache_touch k items) = mset items"
  by (simp add: LRUCache_touch_def mset_erase_key split: option.splits)

section \<open>Evaluating the examples\<close>

lemma example_paths:
  "get_cache_path example_digest ''.image_cache'' ''https://httpbin.org/image/jpeg'' =
     ''.image_cache/6765706a2f6567616d692f67726f2e6e.jpg''"
  "get_cache_path example_digest ''.image_cache'' ''https://httpbin.org/image/png'' =
     ''.image_cache/676e702f6567616d692f67726f2e6e69.jpg''"
  "get_cache_path example_digest ''.image_cache'' ''https://httpbin.org/image/webp'' =
     ''.image_cache/706265772f6567616d692f67726f2e6e.jpg''"
  "get_cache_path example_digest ''.image_cache'' ''https://httpbin.org/image/svg'' =
     ''.image_cache/6776732f6567616d692f67726f2e6e69.jpg''"
  "get_cache_path example_digest ''.image_cache'' ''https://httpbin.org/image/gif'' =
     ''.image_cache/6669672f6567616d692f67726f2e6e69.jpg''"
  by code_simp+

lemmas run_simps =
  get_plain_def fetch_plain_def fetch_impl_plain_def evict_lru_def
  get_functools_def get_impl_def fetch_functools_def erase_url_def fetch_impl_functools_def
  evict_oldest_file_def
  clear_plain_def clear_functools_def
  LRUCache_put_def LRUCache_touch_def LRUCache_contains_def LRUCache_size_def touch_url_def
  is_cached_def fs_exists_def fs_remove_def ofstream_write_def print_def executed_def
  curl_easy_perform_def ImageCache_plain_def ImageCache_functools_def
  served_at_def unwritable_at_def truncated_at_def not_found_at_def timed_out_at_def test_urls_def
  get_cache_size_plain_def get_cache_size_functools_def pair_less_def Let_def
  transfer_ok_def error_line_def
  plain_after_jpeg_def functools_after_jpeg_def plain_after_png_def functools_after_png_def

lemma example_states:
  "run_plain example_digest
     [(served_at 1, Get ''https://httpbin.org/image/jpeg'')]
     (ImageCache_plain ''.image_cache'' 3 []) = Some plain_after_jpeg"
  "run_plain example_digest
     [(served_at 1, Get ''https://httpbin.org/image/jpeg''),
      (served_at 2, Get ''https://httpbin.org/image/png'')]
     (ImageCache_plain ''.image_cache'' 3 []) = Some plain_after_png"
  "run_functools example_digest
     [(served_at 1, Get ''https://httpbin.org/image/jpeg'')]
     (ImageCache_functools ''.image_cache'' 3 []) = functools_after_jpeg"
  "run_functools example_digest
     [(served_at 1, Get ''https://httpbin.org/image/jpeg''),
      (served_at 2, Get ''https://httpbin.org/image/png'')]
     (ImageCache_functools ''.image_cache'' 3 []) = functools_after_png"
  by (simp_all add: run_simps example_paths)


section \<open>Hits\<close>

lemma fetch_plain_hit:
  assumes "is_cached MD5 c url"
  shows "fetch_plain MD5 e url False c =
           Some (Some (get_cache_path MD5 (cache_dir c) url),
                 print (Using_cached_image (get_cache_path MD5 (cache_dir c) url))
                   (executed (Index_touch url)
                      (c\<lparr>lru_cache := LRUCache_touch url (lru_cache c)\<rparr>)))"
  using assms by (simp add: fetch_plain_def is_cached_def Let_def)

lemma get_plain_hit:
  assumes "is_cached MD5 c url"
  shows "get_plain MD5 e url c =
           Some (Some (get_cache_path MD5 (cache_dir c) url),
                 executed (Index_touch url)
                   (c\<lparr>lru_cache := LRUCache_touch url (lru_cache c)\<rparr>))"
  using assms by (simp add: get_plain_def is_cached_def Let_def)

lemma get_plain_miss:
  "\<not> is_cached MD5 c url \<Longrightarrow> get_plain MD5 e url c = fetch_impl_plain MD5 e url c"
  by (simp add: get_plain_def fetch_plain_def is_cached_def Let_def)

lemma get_impl_hit:
  assumes "is_cached MD5 c url"
  shows "get_impl MD5 e url c =
           (Some (get_cache_path MD5 (cache_dir c) url),
            print (Using_cached_image (get_cache_path MD5 (cache_dir c) url))
              (executed (Index_touch url)
                 (c\<lparr>access_order := touch_url url (access_order c)\<rparr>)))"
  using assms by (simp add: get_impl_def is_cached_def Let_def)

lemma get_impl_miss:
  "\<not> is_cached MD5 c url \<Longrightarrow> get_impl MD5 e url c = fetch_impl_functools MD5 e url c"
  by (simp add: get_impl_def is_cached_def Let_def)

lemma fetch_impl_plain_result:
  assumes "fetch_impl_plain MD5 e url c = Some (Some p, c')"
  shows "p = get_cache_path MD5 (cache_dir c) url \<and> cache_dir c' = cache_dir c \<and>
         is_cached MD5 c' url = (stream e \<noteq> Open_failed \<or> is_cached MD5 c url)"
  using assms
  by (auto simp: fetch_impl_plain_def Let_def is_cached_def fs_exists_write
      split: curl_result.splits if_splits option.splits)

lemma fetch_impl_functools_result:
  assumes "fetch_impl_functools MD5 e url c = (Some p, c')"
  shows "p = get_cache_path MD5 (cache_dir c) url \<and> cache_dir c' = cache_dir c \<and>
         is_cached MD5 c' url =
           (stream e \<noteq> Open_failed \<or> is_cached MD5 (evict_oldest_file c) url)"
  using assms
  by (auto simp: fetch_impl_functools_def Let_def is_cached_def fs_exists_write
      split: curl_result.splits if_splits)

lemma get_plain_cached_after:
  assumes "get_plain MD5 e url c = Some (Some p, c')"
    and "is_cached MD5 c url \<or> stream e \<noteq> Open_failed"
  shows "is_cached MD5 c' url \<and> p = get_cache_path MD5 (cache_dir c') url"
proof (cases "is_cached MD5 c url")
  case True
  with assms(1) show ?thesis
    by (auto simp: get_plain_hit is_cached_def)
next
  case False
  with assms show ?thesis
    using fetch_impl_plain_result[of MD5 e url c p c'] by (simp add: get_plain_miss)
qed

lemma get_impl_cached_after:
  assumes "get_impl MD5 e url c = (Some p, c')"
    and "is_cached MD5 c url \<or> stream e \<noteq> Open_failed"
  shows "is_cached MD5 c' url \<and> p = get_cache_path MD5 (cache_dir c') url"
proof (cases "is_cached MD5 c url")
  case True
  with assms(1) show ?thesis
    by (auto simp: get_impl_hit is_cached_def)
next
  case False
  with assms show ?thesis
    using fetch_impl_functools_result[of MD5 e url c p c'] by (simp add: get_impl_miss)
qed

lemma fs_remove_subset: "set (fs_remove p fs) \<subseteq> set fs"
  by (auto simp: fs_remove_def)

lemma evict_oldest_file_subset: "set (files (evict_oldest_file c)) \<subseteq> set (files c)"
  using fs_remove_subset
  by (auto simp: evict_oldest_file_def Let_def split: list.splits)

lemma fs_exists_mono:
  assumes "set fs' \<subseteq> set fs" and "fs_exists p fs'"
  shows "fs_exists p fs"
proof -
  from assms(2) have "p \<in> fst ` set fs'"
    by (simp add: fs_exists_def map_of_eq_None_iff)
  with assms(1) have "p \<in> fst ` set fs"
    by (rule_tac subsetD[OF image_mono])
  then show ?thesis
    by (simp add: fs_exists_def map_of_eq_None_iff)
qed

lemma evict_oldest_file_not_cached:
  assumes "\<not> is_cached MD5 c url"
  shows "\<not> is_cached MD5 (evict_oldest_file c) url"
  using assms fs_exists_mono[OF evict_oldest_file_subset[of c]]
  by (auto simp: is_cached_def)

text \<open>
  A served transfer: the statements of \<^verbatim>\<open>fetch_impl\<close> after a response with status 200,
  for every outcome of the stream.
\<close>

lemma fetch_impl_plain_served:
  assumes "response e = CURLE_OK 200 body" and "0 < max_size c"
  shows "\<exists>c'. fetch_impl_plain MD5 e url c =
                 Some (Some (get_cache_path MD5 (cache_dir c) url), c') \<and>
              mutations c' =
                mutations c @ [Write_file (get_cache_path MD5 (cache_dir c) url), Index_put url] \<and>
              files c' = ofstream_write e (get_cache_path MD5 (cache_dir c) url) body (files c) \<and>
              (\<exists>rest. lru_cache c' = (url, get_cache_path MD5 (cache_dir c) url) # rest) \<and>
              requests c' = requests c @ [url] \<and>
              is_cached MD5 c' url = (stream e \<noteq> Open_failed \<or> is_cached MD5 c url)"
proof -
  from assms(2) have "\<exists>items'. LRUCache_put (max_size c) url (get_cache_path MD5 (cache_dir c) url)
                      (lru_cache c) = Some items'"
    by (rule LRUCache_put_defined)
  then obtain items' where
    put: "LRUCache_put (max_size c) url (get_cache_path MD5 (cache_dir c) url) (lru_cache c) =
            Some items'"
    by (rule exE)
  then have "\<exists>rest. items' = (url, get_cache_path MD5 (cache_dir c) url) # rest"
    by (rule LRUCache_put_front)
  then obtain rest where rest: "items' = (url, get_cache_path MD5 (cache_dir c) url) # rest"
    by (rule exE)
  from assms(1) put rest show ?thesis
    by (simp add: fetch_impl_plain_def Let_def is_cached_def fs_exists_write)
qed

lemma fetch_impl_functools_served:
  assumes "response e = CURLE_OK 200 body"
  shows "\<exists>c'. fetch_impl_functools MD5 e url c =
                 (Some (get_cache_path MD5 (cache_dir c) url), c') \<and>
              mutations c' =
                mutations (evict_oldest_file c) @
                  [Write_file (get_cache_path MD5 (cache_dir c) url), Index_touch url] \<and>
              files c' = ofstream_write e (get_cache_path MD5 (cache_dir c) url) body
                           (files (evict_oldest_file c)) \<and>
              access_order c' = touch_url url (access_order c) \<and>
              requests c' = requests c @ [url] \<and>
              is_cached MD5 c' url =
                (stream e \<noteq> Open_failed \<or> is_cached MD5 (evict_oldest_file c) url)"
  using assms
  by (simp add: fetch_impl_functools_def Let_def is_cached_def fs_exists_write)

text \<open>
  Claim C4, as amended. When the cache file of the identifier exists, \<^verbatim>\<open>fetch\<close> without
  forced refresh and \<^verbatim>\<open>get\<close> return the file's path and touch the recency index
  (\<^verbatim>\<open>LRUCache::touch\<close>, \<^verbatim>\<open>touch_url\<close>); that touch is the one mutating statement they
  execute: they hand no URL to the transfer client and leave the files as they are, in
  both variants. A \<^verbatim>\<open>get\<close> of an identifier that is not cached, whose transfer answers
  with status 200 (in the plain variant with a capacity above zero), returns the path
  whatever becomes of the stream, and afterwards the identifier is cached exactly when the
  stream could open the file, be the write complete or not. After a \<^verbatim>\<open>get\<close> that
  returned a path and either was a hit or could open its file, the identifier is cached
  and the next \<^verbatim>\<open>get\<close> returns the same path without a transfer, whatever its
  environment.
\<close>

theorem hit_semantics:
  fixes cp cp' :: plain_cache and cf cf' :: functools_cache
  shows
  "(is_cached MD5 cp url \<longrightarrow>
      (\<exists>c'. fetch_plain MD5 e url False cp = Some (Some (get_cache_path MD5 (cache_dir cp) url), c') \<and>
            lru_cache c' = LRUCache_touch url (lru_cache cp) \<and>
            requests c' = requests cp \<and> files c' = files cp \<and>
            mutations c' = mutations cp @ [Index_touch url]) \<and>
      (\<exists>c'. get_plain MD5 e url cp = Some (Some (get_cache_path MD5 (cache_dir cp) url), c') \<and>
            lru_cache c' = LRUCache_touch url (lru_cache cp) \<and>
            requests c' = requests cp \<and> files c' = files cp \<and>
            mutations c' = mutations cp @ [Index_touch url])) \<and>
   (is_cached MD5 cf url \<longrightarrow>
      (\<exists>c'. fetch_functools MD5 e url False cf = (Some (get_cache_path MD5 (cache_dir cf) url), c') \<and>
            access_order c' = touch_url url (access_order cf) \<and>
            requests c' = requests cf \<and> files c' = files cf \<and>
            mutations c' = mutations cf @ [Index_touch url]) \<and>
      (\<exists>c'. get_functools MD5 e url cf = (Some (get_cache_path MD5 (cache_dir cf) url), c') \<and>
            access_order c' = touch_url url (access_order cf) \<and>
            requests c' = requests cf \<and> files c' = files cf \<and>
            mutations c' = mutations cf @ [Index_touch url])) \<and>
   (\<not> is_cached MD5 cp url \<and> response e = CURLE_OK 200 body \<and> 0 < max_size cp \<longrightarrow>
      (\<exists>c'. get_plain MD5 e url cp = Some (Some (get_cache_path MD5 (cache_dir cp) url), c') \<and>
            requests c' = requests cp @ [url] \<and>
            is_cached MD5 c' url = (stream e \<noteq> Open_failed))) \<and>
   (\<not> is_cached MD5 cf url \<and> response e = CURLE_OK 200 body \<longrightarrow>
      (\<exists>c'. get_functools MD5 e url cf = (Some (get_cache_path MD5 (cache_dir cf) url), c') \<and>
            requests c' = requests cf @ [url] \<and>
            is_cached MD5 c' url = (stream e \<noteq> Open_failed))) \<and>
   (get_plain MD5 e url cp = Some (Some p, cp') \<and>
    (is_cached MD5 cp url \<or> stream e \<noteq> Open_failed) \<longrightarrow>
      is_cached MD5 cp' url \<and>
      (\<exists>c''. get_plain MD5 e' url cp' = Some (Some p, c'') \<and> requests c'' = requests cp')) \<and>
   (get_functools MD5 e url cf = (Some q, cf') \<and>
    (is_cached MD5 cf url \<or> stream e \<noteq> Open_failed) \<longrightarrow>
      is_cached MD5 cf' url \<and>
      (\<exists>c''. get_functools MD5 e' url cf' = (Some q, c'') \<and> requests c'' = requests cf'))"
proof -
  have c1: "is_cached MD5 cp url \<longrightarrow>
      (\<exists>c'. fetch_plain MD5 e url False cp = Some (Some (get_cache_path MD5 (cache_dir cp) url), c') \<and>
            lru_cache c' = LRUCache_touch url (lru_cache cp) \<and>
            requests c' = requests cp \<and> files c' = files cp \<and>
            mutations c' = mutations cp @ [Index_touch url]) \<and>
      (\<exists>c'. get_plain MD5 e url cp = Some (Some (get_cache_path MD5 (cache_dir cp) url), c') \<and>
            lru_cache c' = LRUCache_touch url (lru_cache cp) \<and>
            requests c' = requests cp \<and> files c' = files cp \<and>
            mutations c' = mutations cp @ [Index_touch url])"
    by (simp add: fetch_plain_hit get_plain_hit)
  have c2: "is_cached MD5 cf url \<longrightarrow>
      (\<exists>c'. fetch_functools MD5 e url False cf = (Some (get_cache_path MD5 (cache_dir cf) url), c') \<and>
            access_order c' = touch_url url (access_order cf) \<and>
            requests c' = requests cf \<and> files c' = files cf \<and>
            mutations c' = mutations cf @ [Index_touch url]) \<and>
      (\<exists>c'. get_functools MD5 e url cf = (Some (get_cache_path MD5 (cache_dir cf) url), c') \<and>
            access_order c' = touch_url url (access_order cf) \<and>
            requests c' = requests cf \<and> files c' = files cf \<and>
            mutations c' = mutations cf @ [Index_touch url])"
    by (simp add: fetch_functools_def get_functools_def get_impl_hit)
  have c3: "\<not> is_cached MD5 cp url \<and> response e = CURLE_OK 200 body \<and> 0 < max_size cp \<longrightarrow>
      (\<exists>c'. get_plain MD5 e url cp = Some (Some (get_cache_path MD5 (cache_dir cp) url), c') \<and>
            requests c' = requests cp @ [url] \<and>
            is_cached MD5 c' url = (stream e \<noteq> Open_failed))"
  proof (rule impI)
    assume h: "\<not> is_cached MD5 cp url \<and> response e = CURLE_OK 200 body \<and> 0 < max_size cp"
    then have "response e = CURLE_OK 200 body" and "0 < max_size cp"
      by simp_all
    then have "\<exists>c'. fetch_impl_plain MD5 e url cp =
                 Some (Some (get_cache_path MD5 (cache_dir cp) url), c') \<and>
              mutations c' =
                mutations cp @ [Write_file (get_cache_path MD5 (cache_dir cp) url), Index_put url] \<and>
              files c' = ofstream_write e (get_cache_path MD5 (cache_dir cp) url) body (files cp) \<and>
              (\<exists>rest. lru_cache c' = (url, get_cache_path MD5 (cache_dir cp) url) # rest) \<and>
              requests c' = requests cp @ [url] \<and>
              is_cached MD5 c' url = (stream e \<noteq> Open_failed \<or> is_cached MD5 cp url)"
      by (rule fetch_impl_plain_served)
    then obtain c' where
      "fetch_impl_plain MD5 e url cp = Some (Some (get_cache_path MD5 (cache_dir cp) url), c')"
      and "requests c' = requests cp @ [url]"
      and "is_cached MD5 c' url = (stream e \<noteq> Open_failed \<or> is_cached MD5 cp url)"
      by (elim exE conjE)
    with h show "\<exists>c'. get_plain MD5 e url cp =
                   Some (Some (get_cache_path MD5 (cache_dir cp) url), c') \<and>
            requests c' = requests cp @ [url] \<and>
            is_cached MD5 c' url = (stream e \<noteq> Open_failed)"
      by (simp add: get_plain_miss)
  qed
  have c4: "\<not> is_cached MD5 cf url \<and> response e = CURLE_OK 200 body \<longrightarrow>
      (\<exists>c'. get_functools MD5 e url cf = (Some (get_cache_path MD5 (cache_dir cf) url), c') \<and>
            requests c' = requests cf @ [url] \<and>
            is_cached MD5 c' url = (stream e \<noteq> Open_failed))"
  proof (rule impI)
    assume h: "\<not> is_cached MD5 cf url \<and> response e = CURLE_OK 200 body"
    then have "response e = CURLE_OK 200 body"
      by simp
    then have "\<exists>c'. fetch_impl_functools MD5 e url cf =
                 (Some (get_cache_path MD5 (cache_dir cf) url), c') \<and>
              mutations c' =
                mutations (evict_oldest_file cf) @
                  [Write_file (get_cache_path MD5 (cache_dir cf) url), Index_touch url] \<and>
              files c' = ofstream_write e (get_cache_path MD5 (cache_dir cf) url) body
                           (files (evict_oldest_file cf)) \<and>
              access_order c' = touch_url url (access_order cf) \<and>
              requests c' = requests cf @ [url] \<and>
              is_cached MD5 c' url =
                (stream e \<noteq> Open_failed \<or> is_cached MD5 (evict_oldest_file cf) url)"
      by (rule fetch_impl_functools_served)
    then obtain c' where
      "fetch_impl_functools MD5 e url cf = (Some (get_cache_path MD5 (cache_dir cf) url), c')"
      and "requests c' = requests cf @ [url]"
      and "is_cached MD5 c' url =
             (stream e \<noteq> Open_failed \<or> is_cached MD5 (evict_oldest_file cf) url)"
      by (elim exE conjE)
    moreover from h have "\<not> is_cached MD5 (evict_oldest_file cf) url"
      by (simp add: evict_oldest_file_not_cached)
    ultimately show "\<exists>c'. get_functools MD5 e url cf =
                       (Some (get_cache_path MD5 (cache_dir cf) url), c') \<and>
            requests c' = requests cf @ [url] \<and>
            is_cached MD5 c' url = (stream e \<noteq> Open_failed)"
      using h by (simp add: get_functools_def get_impl_miss)
  qed
  have c5: "get_plain MD5 e url cp = Some (Some p, cp') \<and>
      (is_cached MD5 cp url \<or> stream e \<noteq> Open_failed) \<longrightarrow>
      is_cached MD5 cp' url \<and>
      (\<exists>c''. get_plain MD5 e' url cp' = Some (Some p, c'') \<and> requests c'' = requests cp')"
  proof (rule impI)
    assume h: "get_plain MD5 e url cp = Some (Some p, cp') \<and>
      (is_cached MD5 cp url \<or> stream e \<noteq> Open_failed)"
    then have "is_cached MD5 cp' url \<and> p = get_cache_path MD5 (cache_dir cp') url"
      by (elim conjE) (rule get_plain_cached_after)
    then show "is_cached MD5 cp' url \<and>
      (\<exists>c''. get_plain MD5 e' url cp' = Some (Some p, c'') \<and> requests c'' = requests cp')"
      by (simp add: get_plain_hit)
  qed
  have c6: "get_functools MD5 e url cf = (Some q, cf') \<and>
      (is_cached MD5 cf url \<or> stream e \<noteq> Open_failed) \<longrightarrow>
      is_cached MD5 cf' url \<and>
      (\<exists>c''. get_functools MD5 e' url cf' = (Some q, c'') \<and> requests c'' = requests cf')"
  proof (rule impI)
    assume h: "get_functools MD5 e url cf = (Some q, cf') \<and>
      (is_cached MD5 cf url \<or> stream e \<noteq> Open_failed)"
    then have "get_impl MD5 e url cf = (Some q, cf')"
      and "is_cached MD5 cf url \<or> stream e \<noteq> Open_failed"
      by (simp_all add: get_functools_def)
    then have "is_cached MD5 cf' url \<and> q = get_cache_path MD5 (cache_dir cf') url"
      by (rule get_impl_cached_after)
    then show "is_cached MD5 cf' url \<and>
      (\<exists>c''. get_functools MD5 e' url cf' = (Some q, c'') \<and> requests c'' = requests cf')"
      by (simp add: get_functools_def get_impl_hit)
  qed
  from c1 c2 c3 c4 c5 c6 show ?thesis by (intro conjI)
qed

theorem hit_semantics_witness:
  "\<not> is_cached example_digest (ImageCache_plain ''.image_cache'' 3 [])
       ''https://httpbin.org/image/jpeg'' \<and>
   response (served_at 1) = CURLE_OK 200 ''image bytes'' \<and>
   (0::nat) < max_size (ImageCache_plain ''.image_cache'' 3 []) \<and>
   get_plain example_digest (served_at 1) ''https://httpbin.org/image/jpeg''
     (ImageCache_plain ''.image_cache'' 3 []) =
     Some (Some ''.image_cache/6765706a2f6567616d692f67726f2e6e.jpg'', plain_after_jpeg) \<and>
   stream (served_at 1) \<noteq> Open_failed \<and>
   is_cached example_digest plain_after_jpeg ''https://httpbin.org/image/jpeg'' \<and>
   (\<exists>c''. get_plain example_digest (timed_out_at 2) ''https://httpbin.org/image/jpeg''
            plain_after_jpeg =
            Some (Some ''.image_cache/6765706a2f6567616d692f67726f2e6e.jpg'', c'') \<and>
          requests c'' = requests plain_after_jpeg) \<and>
   (\<exists>c'. fetch_plain example_digest (timed_out_at 2) ''https://httpbin.org/image/jpeg'' False
            plain_after_jpeg =
            Some (Some ''.image_cache/6765706a2f6567616d692f67726f2e6e.jpg'', c') \<and>
          requests c' = requests plain_after_jpeg \<and> files c' = files plain_after_jpeg \<and>
          mutations c' =
            mutations plain_after_jpeg @ [Index_touch ''https://httpbin.org/image/jpeg'']) \<and>
   \<not> is_cached example_digest (ImageCache_functools ''.image_cache'' 3 [])
       ''https://httpbin.org/image/jpeg'' \<and>
   get_functools example_digest (served_at 1) ''https://httpbin.org/image/jpeg''
     (ImageCache_functools ''.image_cache'' 3 []) =
     (Some ''.image_cache/6765706a2f6567616d692f67726f2e6e.jpg'', functools_after_jpeg) \<and>
   is_cached example_digest functools_after_jpeg ''https://httpbin.org/image/jpeg'' \<and>
   (\<exists>c''. get_functools example_digest (timed_out_at 2) ''https://httpbin.org/image/jpeg''
            functools_after_jpeg =
            (Some ''.image_cache/6765706a2f6567616d692f67726f2e6e.jpg'', c'') \<and>
          requests c'' = requests functools_after_jpeg) \<and>
   (\<exists>c'. fetch_functools example_digest (timed_out_at 2) ''https://httpbin.org/image/jpeg'' False
            functools_after_jpeg =
            (Some ''.image_cache/6765706a2f6567616d692f67726f2e6e.jpg'', c') \<and>
          requests c' = requests functools_after_jpeg \<and> files c' = files functools_after_jpeg \<and>
          mutations c' =
            mutations functools_after_jpeg @ [Index_touch ''https://httpbin.org/image/jpeg'']) \<and>
   response (truncated_at 1) = CURLE_OK 200 ''image bytes'' \<and>
   stream (truncated_at 1) = Write_failed 5 \<and>
   (\<exists>c'. get_plain example_digest (truncated_at 1) ''https://httpbin.org/image/jpeg''
            (ImageCache_plain ''.image_cache'' 3 []) =
            Some (Some ''.image_cache/6765706a2f6567616d692f67726f2e6e.jpg'', c') \<and>
          files c' = [(''.image_cache/6765706a2f6567616d692f67726f2e6e.jpg'', 1, ''image'')] \<and>
          is_cached example_digest c' ''https://httpbin.org/image/jpeg'') \<and>
   (\<exists>c'. get_functools example_digest (truncated_at 1) ''https://httpbin.org/image/jpeg''
            (ImageCache_functools ''.image_cache'' 3 []) =
            (Some ''.image_cache/6765706a2f6567616d692f67726f2e6e.jpg'', c') \<and>
          files c' = [(''.image_cache/6765706a2f6567616d692f67726f2e6e.jpg'', 1, ''image'')] \<and>
          is_cached example_digest c' ''https://httpbin.org/image/jpeg'')"
  using hit_semantics[where ?MD5.0 = example_digest and url = "''https://httpbin.org/image/jpeg''"
      and e = "served_at 1" and e' = "timed_out_at 2" and body = "''image bytes''"
      and cp = "ImageCache_plain ''.image_cache'' 3 []"
      and cf = "ImageCache_functools ''.image_cache'' 3 []"
      and p = "''.image_cache/6765706a2f6567616d692f67726f2e6e.jpg''"
      and q = "''.image_cache/6765706a2f6567616d692f67726f2e6e.jpg''"
      and cp' = plain_after_jpeg and cf' = functools_after_jpeg]
    hit_semantics[where ?MD5.0 = example_digest and url = "''https://httpbin.org/image/jpeg''"
      and e = "timed_out_at 2" and cp = plain_after_jpeg and cf = functools_after_jpeg]
    hit_semantics[where ?MD5.0 = example_digest and url = "''https://httpbin.org/image/jpeg''"
      and e = "truncated_at 1" and body = "''image bytes''"
      and cp = "ImageCache_plain ''.image_cache'' 3 []"
      and cf = "ImageCache_functools ''.image_cache'' 3 []"]
  by (simp add: run_simps example_paths)

text \<open>
  Claim C4 as stated fails when the stream cannot open the file: the code does not look at
  the stream's state, so \<^verbatim>\<open>get\<close> returns the path although no file exists, the
  identifier is not cached, and the next \<^verbatim>\<open>get\<close> transfers again.
\<close>

theorem unwritten_get_counterexample:
  "(\<exists>c1 c2. get_plain example_digest (unwritable_at 1) ''https://httpbin.org/image/jpeg''
             (ImageCache_plain ''.image_cache'' 3 []) =
             Some (Some ''.image_cache/6765706a2f6567616d692f67726f2e6e.jpg'', c1) \<and>
           \<not> is_cached example_digest c1 ''https://httpbin.org/image/jpeg'' \<and>
           get_plain example_digest (served_at 2) ''https://httpbin.org/image/jpeg'' c1 =
             Some (Some ''.image_cache/6765706a2f6567616d692f67726f2e6e.jpg'', c2) \<and>
           requests c2 = requests c1 @ [''https://httpbin.org/image/jpeg'']) \<and>
   (\<exists>c1 c2. get_functools example_digest (unwritable_at 1) ''https://httpbin.org/image/jpeg''
             (ImageCache_functools ''.image_cache'' 3 []) =
             (Some ''.image_cache/6765706a2f6567616d692f67726f2e6e.jpg'', c1) \<and>
           \<not> is_cached example_digest c1 ''https://httpbin.org/image/jpeg'' \<and>
           get_functools example_digest (served_at 2) ''https://httpbin.org/image/jpeg'' c1 =
             (Some ''.image_cache/6765706a2f6567616d692f67726f2e6e.jpg'', c2) \<and>
           requests c2 = requests c1 @ [''https://httpbin.org/image/jpeg''])"
  by (simp add: run_simps example_paths)

section \<open>The frame of a hit\<close>

lemma touch_url_set [simp]: "set (touch_url url order) = insert url (set order)"
proof -
  have "x \<in> set (remove1 url order) \<or> x = url" if "x \<in> set order" for x
    using that by (cases "x = url") (simp_all add: in_set_remove1)
  moreover have "x \<in> set order" if "x \<in> set (remove1 url order)" for x
    using that set_remove1_subset[of url order] by blast
  ultimately show ?thesis
    by (auto simp: touch_url_def)
qed

lemma touch_url_mset: "url \<in> set order \<Longrightarrow> mset (touch_url url order) = mset order"
  by (simp add: touch_url_def)

lemma touch_url_last [simp]: "last (touch_url url order) = url"
  by (simp add: touch_url_def)

lemma evict_oldest_file_idle:
  "evict_oldest_file c = c" if "length (files c) \<le> max_size c"
proof (cases "map (\<lambda>f. (fst (snd f), fst f)) (files c)")
  case Nil
  then show ?thesis by (simp add: evict_oldest_file_def)
next
  case (Cons x xs)
  then have "length (x # xs) = length (files c)"
    by (metis length_map)
  with Cons that show ?thesis
    by (simp add: evict_oldest_file_def)
qed

text \<open>
  Claim C10, as amended. When the cache file of the identifier exists, \<^verbatim>\<open>get\<close> returns
  the cache path, starts no transfer and leaves the files, the directory and the capacity
  as they are; the one mutating statement it executes is the touch of the recency index.
  In the plain variant the index becomes \<^verbatim>\<open>touch(url)\<close> of the old one: it keeps its
  entries, a tracked URL's entry moves to the front (the most recent position) with the
  others in their order, an index that does not track the URL is unchanged, and nothing
  is printed. In the functools variant \<^verbatim>\<open>access_order\<close> becomes \<^verbatim>\<open>touch_url(url)\<close> of
  the old one, so the URL is its last (most recent) entry: moved there when the URL was
  tracked, inserted there when it was not.
\<close>

theorem hit_frame:
  fixes cp :: plain_cache and cf :: functools_cache
  shows
  "(is_cached MD5 cp url \<longrightarrow>
      (\<exists>c'. get_plain MD5 e url cp = Some (Some (get_cache_path MD5 (cache_dir cp) url), c') \<and>
            files c' = files cp \<and> requests c' = requests cp \<and> console c' = console cp \<and>
            cache_dir c' = cache_dir cp \<and> max_size c' = max_size cp \<and>
            mutations c' = mutations cp @ [Index_touch url] \<and>
            lru_cache c' = LRUCache_touch url (lru_cache cp) \<and>
            mset (lru_cache c') = mset (lru_cache cp) \<and>
            (\<forall>v. map_of (lru_cache cp) url = Some v \<longrightarrow>
                 lru_cache c' = (url, v) # erase_key url (lru_cache cp)) \<and>
            (\<not> LRUCache_contains url (lru_cache cp) \<longrightarrow> lru_cache c' = lru_cache cp))) \<and>
   (is_cached MD5 cf url \<longrightarrow>
      (\<exists>c'. get_functools MD5 e url cf = (Some (get_cache_path MD5 (cache_dir cf) url), c') \<and>
            files c' = files cf \<and> requests c' = requests cf \<and>
            cache_dir c' = cache_dir cf \<and> max_size c' = max_size cf \<and>
            mutations c' = mutations cf @ [Index_touch url] \<and>
            access_order c' = touch_url url (access_order cf) \<and>
            last (access_order c') = url \<and>
            set (access_order c') = insert url (set (access_order cf)) \<and>
            (url \<in> set (access_order cf) \<longrightarrow>
               mset (access_order c') = mset (access_order cf) \<and>
               access_order c' = remove1 url (access_order cf) @ [url]) \<and>
            (url \<notin> set (access_order cf) \<longrightarrow> access_order c' = access_order cf @ [url])))"
proof -
  have c1: "is_cached MD5 cp url \<longrightarrow>
      (\<exists>c'. get_plain MD5 e url cp = Some (Some (get_cache_path MD5 (cache_dir cp) url), c') \<and>
            files c' = files cp \<and> requests c' = requests cp \<and> console c' = console cp \<and>
            cache_dir c' = cache_dir cp \<and> max_size c' = max_size cp \<and>
            mutations c' = mutations cp @ [Index_touch url] \<and>
            lru_cache c' = LRUCache_touch url (lru_cache cp) \<and>
            mset (lru_cache c') = mset (lru_cache cp) \<and>
            (\<forall>v. map_of (lru_cache cp) url = Some v \<longrightarrow>
                 lru_cache c' = (url, v) # erase_key url (lru_cache cp)) \<and>
            (\<not> LRUCache_contains url (lru_cache cp) \<longrightarrow> lru_cache c' = lru_cache cp))"
    by (simp add: get_plain_hit) (simp add: LRUCache_touch_def LRUCache_contains_def)
  have c2: "is_cached MD5 cf url \<longrightarrow>
      (\<exists>c'. get_functools MD5 e url cf = (Some (get_cache_path MD5 (cache_dir cf) url), c') \<and>
            files c' = files cf \<and> requests c' = requests cf \<and>
            cache_dir c' = cache_dir cf \<and> max_size c' = max_size cf \<and>
            mutations c' = mutations cf @ [Index_touch url] \<and>
            access_order c' = touch_url url (access_order cf) \<and>
            last (access_order c') = url \<and>
            set (access_order c') = insert url (set (access_order cf)) \<and>
            (url \<in> set (access_order cf) \<longrightarrow>
               mset (access_order c') = mset (access_order cf) \<and>
               access_order c' = remove1 url (access_order cf) @ [url]) \<and>
            (url \<notin> set (access_order cf) \<longrightarrow> access_order c' = access_order cf @ [url]))"
    by (simp add: get_functools_def get_impl_hit touch_url_mset) (simp add: touch_url_def)
  from c1 c2 show ?thesis by (rule conjI)
qed

theorem hit_frame_witness:
  "is_cached example_digest plain_after_png ''https://httpbin.org/image/jpeg'' \<and>
   map_of (lru_cache plain_after_png) ''https://httpbin.org/image/jpeg'' =
     Some ''.image_cache/6765706a2f6567616d692f67726f2e6e.jpg'' \<and>
   get_plain example_digest (timed_out_at 3) ''https://httpbin.org/image/jpeg'' plain_after_png =
     Some (Some ''.image_cache/6765706a2f6567616d692f67726f2e6e.jpg'',
           plain_after_png
             \<lparr>mutations := mutations plain_after_png @
                            [Index_touch ''https://httpbin.org/image/jpeg''],
              lru_cache := [(''https://httpbin.org/image/jpeg'',
                             ''.image_cache/6765706a2f6567616d692f67726f2e6e.jpg''),
                            (''https://httpbin.org/image/png'',
                             ''.image_cache/676e702f6567616d692f67726f2e6e69.jpg'')]\<rparr>) \<and>
   is_cached example_digest (plain_after_jpeg\<lparr>lru_cache := []\<rparr>)
     ''https://httpbin.org/image/jpeg'' \<and>
   \<not> LRUCache_contains ''https://httpbin.org/image/jpeg''
       (lru_cache (plain_after_jpeg\<lparr>lru_cache := []\<rparr>)) \<and>
   (\<exists>c'. get_plain example_digest (timed_out_at 3) ''https://httpbin.org/image/jpeg''
            (plain_after_jpeg\<lparr>lru_cache := []\<rparr>) =
            Some (Some ''.image_cache/6765706a2f6567616d692f67726f2e6e.jpg'', c') \<and>
          lru_cache c' = []) \<and>
   is_cached example_digest functools_after_png ''https://httpbin.org/image/jpeg'' \<and>
   ''https://httpbin.org/image/jpeg'' \<in> set (access_order functools_after_png) \<and>
   (\<exists>c'. get_functools example_digest (timed_out_at 3) ''https://httpbin.org/image/jpeg''
            functools_after_png =
            (Some ''.image_cache/6765706a2f6567616d692f67726f2e6e.jpg'', c') \<and>
          files c' = files functools_after_png \<and>
          mset (access_order c') = mset (access_order functools_after_png) \<and>
          last (access_order c') = ''https://httpbin.org/image/jpeg'' \<and>
          access_order c' =
            [''https://httpbin.org/image/png'', ''https://httpbin.org/image/jpeg'']) \<and>
   is_cached example_digest (functools_after_jpeg\<lparr>access_order := []\<rparr>)
     ''https://httpbin.org/image/jpeg'' \<and>
   ''https://httpbin.org/image/jpeg'' \<notin> set (access_order (functools_after_jpeg\<lparr>access_order := []\<rparr>)) \<and>
   (\<exists>c'. get_functools example_digest (timed_out_at 3) ''https://httpbin.org/image/jpeg''
            (functools_after_jpeg\<lparr>access_order := []\<rparr>) =
            (Some ''.image_cache/6765706a2f6567616d692f67726f2e6e.jpg'', c') \<and>
          access_order c' = [''https://httpbin.org/image/jpeg''])"
  using hit_frame[where ?MD5.0 = example_digest and url = "''https://httpbin.org/image/jpeg''"
      and e = "timed_out_at 3" and cp = plain_after_png and cf = functools_after_png]
    hit_frame[where ?MD5.0 = example_digest and url = "''https://httpbin.org/image/jpeg''"
      and e = "timed_out_at 3" and cp = "plain_after_jpeg\<lparr>lru_cache := []\<rparr>"
      and cf = "functools_after_jpeg\<lparr>access_order := []\<rparr>"]
  by (simp add: run_simps example_paths)

text \<open>
  Claim C10 as stated fails in the functools variant when the file exists and the URL is
  not tracked, as after a forced refresh whose transfer failed: the hit adds the URL to
  \<^verbatim>\<open>access_order\<close>, which is more than a change of order.
\<close>

theorem hit_inserts_untracked_counterexample:
  "(let c = run_functools example_digest
              [(served_at 1, Get ''https://httpbin.org/image/jpeg''),
               (timed_out_at 2, Fetch ''https://httpbin.org/image/jpeg'' True)]
              (ImageCache_functools ''.image_cache'' 3 [])
    in is_cached example_digest c ''https://httpbin.org/image/jpeg'' \<and>
       access_order c = [] \<and>
       fst (get_functools example_digest (timed_out_at 3) ''https://httpbin.org/image/jpeg'' c) =
         Some ''.image_cache/6765706a2f6567616d692f67726f2e6e.jpg'' \<and>
       access_order (snd (get_functools example_digest (timed_out_at 3)
                            ''https://httpbin.org/image/jpeg'' c)) =
         [''https://httpbin.org/image/jpeg''])"
  by (simp add: run_simps example_paths)

section \<open>Failed transfers\<close>

lemma fetch_impl_plain_failed:
  assumes "\<not> transfer_ok e"
  shows "fetch_impl_plain MD5 e url c = Some (None, print (error_line e) (curl_easy_perform url c))"
  using assms
  by (simp add: fetch_impl_plain_def transfer_ok_def error_line_def split: curl_result.splits)

lemma fetch_impl_functools_failed:
  assumes "\<not> transfer_ok e"
  shows "fetch_impl_functools MD5 e url c =
           (None, print (error_line e) (curl_easy_perform url (evict_oldest_file c)))"
  using assms
  by (simp add: fetch_impl_functools_def transfer_ok_def error_line_def split: curl_result.splits)

text \<open>
  Claim C5, as amended. When the transfer fails or the status is not 200, a \<^verbatim>\<open>get\<close> of
  an identifier that is not cached returns the empty optional and prints one line with
  the cause (the HTTP status, or the transfer's error code). The recency index is as it
  was. In the plain variant the files are as they were; in the functools variant they are
  what \<^verbatim>\<open>evict_oldest_file\<close> left before the transfer, which removes nothing when
  the directory holds at most \<^verbatim>\<open>max_size\<close> files and never adds a file.
\<close>

theorem fetch_failure_atomic:
  fixes cp :: plain_cache and cf :: functools_cache
  shows
  "(\<not> transfer_ok e \<and> \<not> is_cached MD5 cp url \<longrightarrow>
      (\<exists>c'. get_plain MD5 e url cp = Some (None, c') \<and>
            files c' = files cp \<and> lru_cache c' = lru_cache cp \<and>
            requests c' = requests cp @ [url] \<and>
            console c' = console cp @ [error_line e])) \<and>
   (\<not> transfer_ok e \<and> \<not> is_cached MD5 cf url \<longrightarrow>
      (\<exists>c'. get_functools MD5 e url cf = (None, c') \<and>
            files c' = files (evict_oldest_file cf) \<and> access_order c' = access_order cf \<and>
            requests c' = requests cf @ [url] \<and>
            console c' = console (evict_oldest_file cf) @ [error_line e])) \<and>
   set (files (evict_oldest_file cf)) \<subseteq> set (files cf) \<and>
   (length (files cf) \<le> max_size cf \<longrightarrow> evict_oldest_file cf = cf)"
proof -
  have "\<exists>c'. get_plain MD5 e url cp = Some (None, c') \<and>
            files c' = files cp \<and> lru_cache c' = lru_cache cp \<and>
            requests c' = requests cp @ [url] \<and>
            console c' = console cp @ [error_line e]"
    if "\<not> transfer_ok e \<and> \<not> is_cached MD5 cp url"
    using that by (simp add: get_plain_miss fetch_impl_plain_failed)
  moreover have "\<exists>c'. get_functools MD5 e url cf = (None, c') \<and>
            files c' = files (evict_oldest_file cf) \<and> access_order c' = access_order cf \<and>
            requests c' = requests cf @ [url] \<and>
            console c' = console (evict_oldest_file cf) @ [error_line e]"
    if "\<not> transfer_ok e \<and> \<not> is_cached MD5 cf url"
    using that by (simp add: get_functools_def get_impl_miss fetch_impl_functools_failed)
  ultimately show ?thesis
    using evict_oldest_file_subset[of cf] evict_oldest_file_idle[of cf] by blast
qed

theorem fetch_failure_atomic_witness:
  "\<not> transfer_ok (not_found_at 1) \<and>
   \<not> is_cached example_digest (ImageCache_plain ''.image_cache'' 3 []) ''https://httpbin.org/image/jpeg'' \<and>
   get_plain example_digest (not_found_at 1) ''https://httpbin.org/image/jpeg''
       (ImageCache_plain ''.image_cache'' 3 []) =
     Some (None, \<lparr>cache_dir = ''.image_cache'', max_size = 3, files = [],
                  requests = [''https://httpbin.org/image/jpeg''],
                  console = [Error_HTTP 404], mutations = [], lru_cache = []\<rparr>) \<and>
   \<not> transfer_ok (timed_out_at 1) \<and>
   \<not> is_cached example_digest (ImageCache_functools ''.image_cache'' 3 []) ''https://httpbin.org/image/jpeg'' \<and>
   get_functools example_digest (timed_out_at 1) ''https://httpbin.org/image/jpeg''
       (ImageCache_functools ''.image_cache'' 3 []) =
     (None, \<lparr>cache_dir = ''.image_cache'', max_size = 3, files = [],
             requests = [''https://httpbin.org/image/jpeg''],
             console = [Error_fetching_image 28], mutations = [], access_order = []\<rparr>) \<and>
   length (files (ImageCache_functools ''.image_cache'' 3 [])) \<le>
     max_size (ImageCache_functools ''.image_cache'' 3 [])"
  using fetch_failure_atomic[where ?MD5.0 = example_digest and e = "not_found_at 1"
      and url = "''https://httpbin.org/image/jpeg''"
      and cp = "ImageCache_plain ''.image_cache'' 3 []"
      and cf = "ImageCache_functools ''.image_cache'' 3 []"]
    fetch_failure_atomic[where ?MD5.0 = example_digest and e = "timed_out_at 1"
      and url = "''https://httpbin.org/image/jpeg''"
      and cp = "ImageCache_plain ''.image_cache'' 3 []"
      and cf = "ImageCache_functools ''.image_cache'' 3 []"]
  by (simp add: run_simps example_paths)

text \<open>
  Claim C5 as stated fails in what \<^verbatim>\<open>get\<close> returns: a 404 answer and a timeout give
  the same value, the empty optional, so the value returned does not describe the cause.
\<close>

theorem failure_cause_not_returned_counterexample:
  "response (not_found_at 1) \<noteq> response (timed_out_at 1) \<and>
   map_option fst (get_plain example_digest (not_found_at 1) ''https://httpbin.org/image/jpeg''
                     (ImageCache_plain ''.image_cache'' 3 [])) = Some None \<and>
   map_option fst (get_plain example_digest (timed_out_at 1) ''https://httpbin.org/image/jpeg''
                     (ImageCache_plain ''.image_cache'' 3 [])) = Some None \<and>
   fst (get_functools example_digest (not_found_at 1) ''https://httpbin.org/image/jpeg''
          (ImageCache_functools ''.image_cache'' 3 [])) = None \<and>
   fst (get_functools example_digest (timed_out_at 1) ''https://httpbin.org/image/jpeg''
          (ImageCache_functools ''.image_cache'' 3 [])) = None"
  by (simp add: run_simps example_paths)

section \<open>The commit\<close>




section \<open>Forced refresh\<close>








section \<open>Capacity and eviction\<close>

lemma fetch_impl_plain_capacity:
  assumes "fetch_impl_plain MD5 e url c = Some (r, c')" and "length (lru_cache c) \<le> max_size c"
  shows "length (lru_cache c') \<le> max_size c' \<and> max_size c' = max_size c"
proof (cases "transfer_ok e")
  case False
  with assms show ?thesis by (auto simp: fetch_impl_plain_failed)
next
  case True
  then obtain body where body: "response e = CURLE_OK 200 body"
    by (auto simp: transfer_ok_def split: curl_result.splits)
  with assms(1) obtain items' where
    put: "LRUCache_put (max_size c) url (get_cache_path MD5 (cache_dir c) url) (lru_cache c) = Some items'"
    and c': "lru_cache c' = items'" "max_size c' = max_size c"
    by (auto simp: fetch_impl_plain_def Let_def split: option.splits)
  from put assms(2) have "length items' \<le> max_size c"
    by (rule LRUCache_put_length)
  with c' show ?thesis by simp
qed

lemma call_plain_capacity:
  assumes "call_plain MD5 x c = Some c'" and "length (lru_cache c) \<le> max_size c"
  shows "length (lru_cache c') \<le> max_size c' \<and> max_size c' = max_size c"
proof (cases x)
  case (Pair e call)
  show ?thesis
  proof (cases call)
    case (Get url)
    show ?thesis
    proof (cases "is_cached MD5 c url")
      case True
      with assms Pair Get show ?thesis by (auto simp: get_plain_hit)
    next
      case False
      with assms Pair Get show ?thesis
        using fetch_impl_plain_capacity[of MD5 e url c]
        by (auto simp: get_plain_miss)
    qed
  next
    case (Fetch url force_refresh)
    show ?thesis
    proof (cases "\<not> force_refresh \<and> is_cached MD5 c url")
      case True
      with assms Pair Fetch show ?thesis by (auto simp: fetch_plain_hit)
    next
      case False
      then have "fetch_plain MD5 e url force_refresh c = fetch_impl_plain MD5 e url c"
        by (auto simp: fetch_plain_def is_cached_def)
      with assms Pair Fetch show ?thesis
        using fetch_impl_plain_capacity[of MD5 e url c]
        by auto
    qed
  next
    case Clear
    with assms Pair show ?thesis by (auto simp: clear_plain_def)
  qed
qed

lemma plain_capacity_invariant:
  assumes "run_plain MD5 calls c = Some c'" and "length (lru_cache c) \<le> max_size c"
  shows "length (lru_cache c') \<le> max_size c' \<and> max_size c' = max_size c"
  using assms
proof (induction calls arbitrary: c)
  case Nil
  then show ?case by simp
next
  case (Cons x calls)
  from Cons.prems(1) obtain c1 where step: "call_plain MD5 x c = Some c1"
    and rest: "run_plain MD5 calls c1 = Some c'"
    by (auto split: option.splits)
  from step Cons.prems(2) have "length (lru_cache c1) \<le> max_size c1 \<and> max_size c1 = max_size c"
    by (rule call_plain_capacity)
  with Cons.IH[OF rest] show ?case by simp
qed

lemma call_plain_defined:
  assumes "0 < max_size c"
  shows "\<exists>c'. call_plain MD5 x c = Some c' \<and> max_size c' = max_size c"
proof (cases x)
  case (Pair e call)
  have impl: "\<exists>r c'. fetch_impl_plain MD5 e url c = Some (r, c') \<and> max_size c' = max_size c" for url
  proof (cases "transfer_ok e")
    case False
    then show ?thesis by (simp add: fetch_impl_plain_failed)
  next
    case True
    then obtain body where body: "response e = CURLE_OK 200 body"
      by (auto simp: transfer_ok_def split: curl_result.splits)
    from assms have "\<exists>items'. LRUCache_put (max_size c) url (get_cache_path MD5 (cache_dir c) url)
                        (lru_cache c) = Some items'"
      by (rule LRUCache_put_defined)
    then obtain items' where
      "LRUCache_put (max_size c) url (get_cache_path MD5 (cache_dir c) url) (lru_cache c) = Some items'"
      by (rule exE)
    with body show ?thesis
      by (simp add: fetch_impl_plain_def Let_def)
  qed
  show ?thesis
  proof (cases call)
    case (Get url)
    with Pair impl[of url] show ?thesis
      by (cases "is_cached MD5 c url") (auto simp: get_plain_hit get_plain_miss)
  next
    case (Fetch url force_refresh)
    show ?thesis
    proof (cases "\<not> force_refresh \<and> is_cached MD5 c url")
      case True
      with Pair Fetch show ?thesis by (auto simp: fetch_plain_hit)
    next
      case False
      then have "fetch_plain MD5 e url force_refresh c = fetch_impl_plain MD5 e url c"
        by (auto simp: fetch_plain_def is_cached_def)
      with Pair Fetch impl[of url] show ?thesis by auto
    qed
  next
    case Clear
    with Pair show ?thesis by (simp add: clear_plain_def)
  qed
qed

lemma run_plain_defined:
  assumes "0 < max_size c"
  shows "\<exists>c'. run_plain MD5 calls c = Some c'"
  using assms
proof (induction calls arbitrary: c)
  case Nil
  then show ?case by simp
next
  case (Cons x calls)
  from call_plain_defined[OF Cons.prems, of MD5 x] obtain c1 where
    "call_plain MD5 x c = Some c1" and "max_size c1 = max_size c"
    by auto
  with Cons.IH[of c1] Cons.prems show ?case by simp
qed

text \<open>
  With capacity zero the first served fetch of the plain variant reaches
  \<^verbatim>\<open>items.back()\<close> on the empty list.
\<close>

lemma plain_capacity_zero_undefined:
  assumes "\<not> is_cached MD5 c url" and "max_size c = 0" and "lru_cache c = []"
  shows "get_plain MD5 (served_at t) url c = None"
  using assms
  by (simp add: get_plain_miss fetch_impl_plain_def served_at_def Let_def LRUCache_put_def
      LRUCache_contains_def)

text \<open>
  The recency indexes stay well formed: no call makes a key or a URL appear twice.
\<close>

lemma erase_key_keys:
  "distinct (map fst items) \<Longrightarrow> map fst (erase_key k items) = removeAll k (map fst items)"
  by (induction items) (auto simp: removeAll_id)

lemma map_of_None_keys: "map_of items k = None \<longleftrightarrow> k \<notin> set (map fst items)"
  by (simp add: map_of_eq_None_iff)

lemma LRUCache_put_distinct:
  assumes "LRUCache_put n k v items = Some items'" and "distinct (map fst items)"
  shows "distinct (map fst items')"
proof (cases "LRUCache_contains k items")
  case True
  with assms show ?thesis
    by (auto simp: LRUCache_put_def erase_key_keys distinct_removeAll)
next
  case False
  then have absent: "k \<notin> set (map fst items)"
    by (simp add: LRUCache_contains_def map_of_None_keys)
  show ?thesis
  proof (cases "items = []")
    case True
    with assms False show ?thesis by (auto simp: LRUCache_put_def split: if_splits)
  next
    case nonempty: False
    have "distinct (map fst (butlast items))"
      using assms(2) by (simp add: map_butlast distinct_butlast)
    moreover have "k \<notin> set (map fst (butlast items))"
      using absent in_set_butlastD[of k "map fst items"] by (auto simp: map_butlast)
    ultimately show ?thesis
      using assms absent False by (auto simp: LRUCache_put_def split: if_splits)
  qed
qed

lemma LRUCache_touch_distinct:
  "distinct (map fst items) \<Longrightarrow> distinct (map fst (LRUCache_touch k items))"
  by (auto simp: LRUCache_touch_def erase_key_keys distinct_removeAll split: option.splits)

lemma touch_url_distinct: "distinct order \<Longrightarrow> distinct (touch_url url order)"
  by (simp add: touch_url_filter)

lemma call_plain_distinct:
  assumes "call_plain MD5 x c = Some c'" and "distinct (map fst (lru_cache c))"
  shows "distinct (map fst (lru_cache c'))"
proof -
  have impl: "distinct (map fst (lru_cache c'))"
    if "fetch_impl_plain MD5 e url c = Some (r, c')" for e url r
  proof (cases "transfer_ok e")
    case False
    with that assms(2) show ?thesis by (auto simp: fetch_impl_plain_failed)
  next
    case True
    then obtain body where "response e = CURLE_OK 200 body"
      by (auto simp: transfer_ok_def split: curl_result.splits)
    with that obtain items' where
      "LRUCache_put (max_size c) url (get_cache_path MD5 (cache_dir c) url) (lru_cache c) = Some items'"
      and "lru_cache c' = items'"
      by (auto simp: fetch_impl_plain_def Let_def split: option.splits)
    with assms(2) show ?thesis
      using LRUCache_put_distinct by metis
  qed
  obtain e call where x: "x = (e, call)" by (cases x)
  show ?thesis
  proof (cases call)
    case (Get url)
    with assms x impl show ?thesis
      by (cases "is_cached MD5 c url")
         (auto simp: get_plain_hit get_plain_miss LRUCache_touch_distinct)
  next
    case (Fetch url force_refresh)
    show ?thesis
    proof (cases "\<not> force_refresh \<and> is_cached MD5 c url")
      case True
      with assms x Fetch show ?thesis
        by (auto simp: fetch_plain_hit LRUCache_touch_distinct)
    next
      case False
      then have "fetch_plain MD5 e url force_refresh c = fetch_impl_plain MD5 e url c"
        by (auto simp: fetch_plain_def is_cached_def)
      with assms x Fetch impl show ?thesis by auto
    qed
  next
    case Clear
    with assms x show ?thesis by (auto simp: clear_plain_def)
  qed
qed

lemma plain_index_distinct:
  assumes "run_plain MD5 calls c = Some c'" and "distinct (map fst (lru_cache c))"
  shows "distinct (map fst (lru_cache c'))"
  using assms
proof (induction calls arbitrary: c)
  case Nil
  then show ?case by simp
next
  case (Cons x calls)
  from Cons.prems(1) obtain c1 where step: "call_plain MD5 x c = Some c1"
    and rest: "run_plain MD5 calls c1 = Some c'"
    by (auto split: option.splits)
  from step Cons.prems(2) have "distinct (map fst (lru_cache c1))"
    by (rule call_plain_distinct)
  with rest show ?case by (rule Cons.IH)
qed

lemma call_functools_distinct:
  assumes "distinct (access_order c)"
  shows "distinct (access_order (call_functools MD5 x c))"
proof -
  have impl: "distinct (access_order (snd (fetch_impl_functools MD5 e url c0)))"
    if "distinct (access_order c0)" for e url and c0 :: functools_cache
    using that
    by (auto simp: fetch_impl_functools_def Let_def touch_url_distinct split: curl_result.splits)
  have get: "distinct (access_order (snd (get_impl MD5 e url c)))" for e url
    using assms impl[of c]
    by (cases "is_cached MD5 c url") (auto simp: get_impl_hit get_impl_miss touch_url_distinct)
  obtain e call where x: "x = (e, call)" by (cases x)
  show ?thesis
  proof (cases call)
    case (Get url)
    with x get show ?thesis by (simp add: get_functools_def)
  next
    case (Fetch url force_refresh)
    have "distinct (access_order (erase_url url c))"
      using assms by simp
    then have "distinct (access_order (snd (fetch_impl_functools MD5 e url (erase_url url c))))"
      by (rule impl)
    with x Fetch get show ?thesis by (simp add: fetch_functools_def)
  next
    case Clear
    with x show ?thesis by (simp add: clear_functools_def)
  qed
qed

lemma functools_index_distinct:
  "distinct (access_order c) \<Longrightarrow> distinct (access_order (run_functools MD5 calls c))"
  by (induction calls arbitrary: c) (simp_all add: call_functools_distinct)

lemma get_functools_served:
  assumes "\<not> is_cached MD5 c url"
  shows "get_functools MD5 (served_at t) url c =
           (Some (get_cache_path MD5 (cache_dir c) url),
            (evict_oldest_file c)
              \<lparr>files := ofstream_write (served_at t) (get_cache_path MD5 (cache_dir c) url)
                          ''image bytes'' (files (evict_oldest_file c)),
               requests := requests c @ [url],
               console := console (evict_oldest_file c) @
                          [Cached_image (get_cache_path MD5 (cache_dir c) url) 11],
               mutations := mutations (evict_oldest_file c) @
                            [Write_file (get_cache_path MD5 (cache_dir c) url), Index_touch url],
               access_order := touch_url url (access_order c)\<rparr>)"
  using assms
  by (simp add: get_functools_def get_impl_miss fetch_impl_functools_def served_at_def
      Let_def print_def executed_def curl_easy_perform_def)

lemma access_order_get_functools:
  "transfer_ok e \<Longrightarrow>
     access_order (snd (get_functools MD5 e url c)) = touch_url url (access_order c)"
  by (auto simp: get_functools_def get_impl_def fetch_impl_functools_def Let_def transfer_ok_def
      split: curl_result.splits)

lemma access_order_run_gets:
  assumes "length ts = length urls"
  shows "access_order (run_functools MD5 (zip (map served_at ts) (map Get urls)) c) =
           fold touch_url urls (access_order c)"
  using assms
proof (induction ts urls arbitrary: c rule: list_induct2)
  case Nil
  then show ?case by simp
next
  case (Cons t ts url urls)
  have "transfer_ok (served_at t)"
    by (simp add: transfer_ok_def served_at_def)
  then show ?case
    by (simp add: Cons.IH access_order_get_functools)
qed

lemma fold_touch_url_fresh:
  "distinct (order @ urls) \<Longrightarrow> fold touch_url urls order = order @ urls"
proof (induction urls arbitrary: order)
  case Nil
  then show ?case by simp
next
  case (Cons url urls)
  from Cons.prems have "touch_url url order = order @ [url]"
    by (simp add: touch_url_def)
  moreover from Cons.prems have "distinct ((order @ [url]) @ urls)"
    by auto
  ultimately show ?case
    using Cons.IH[of "order @ [url]"] by simp
qed

lemma get_plain_served_put:
  assumes "\<not> is_cached MD5 c url"
  shows "get_plain MD5 (served_at t) url c =
           map_option
             (\<lambda>items'. (Some (get_cache_path MD5 (cache_dir c) url),
                c\<lparr>files := ofstream_write (served_at t) (get_cache_path MD5 (cache_dir c) url)
                              ''image bytes'' (files c),
                   requests := requests c @ [url],
                   console := console c @ [Cached_image (get_cache_path MD5 (cache_dir c) url) 11],
                   mutations := mutations c @
                                [Write_file (get_cache_path MD5 (cache_dir c) url), Index_put url],
                   lru_cache := items'\<rparr>))
             (LRUCache_put (max_size c) url (get_cache_path MD5 (cache_dir c) url) (lru_cache c))"
  using assms
  by (simp add: get_plain_miss fetch_impl_plain_def served_at_def
      Let_def print_def executed_def curl_easy_perform_def split: option.splits)

lemmas state_simps =
  is_cached_def fs_exists_def fs_remove_def ofstream_write_def print_def executed_def
  ImageCache_plain_def ImageCache_functools_def evict_oldest_file_def pair_less_def
  LRUCache_put_def LRUCache_touch_def LRUCache_contains_def touch_url_def Let_def

lemma served_at_simps [simp]: "stream (served_at t) = Written" "now (served_at t) = t"
  by (simp_all add: served_at_def)

lemma get_functools_hit:
  assumes "is_cached MD5 c url"
  shows "get_functools MD5 e url c =
           (Some (get_cache_path MD5 (cache_dir c) url),
            print (Using_cached_image (get_cache_path MD5 (cache_dir c) url))
              (executed (Index_touch url)
                 (c\<lparr>access_order := touch_url url (access_order c)\<rparr>)))"
  using assms by (simp add: get_functools_def get_impl_hit)

text \<open>
  Claim C1, on the functools variant: whatever the capacity, the digest and the files
  already in the directory, after \<^verbatim>\<open>get\<close> has been served for each of a list of
  distinct URLs, \<^verbatim>\<open>access_order\<close> holds all of them, so its size is the number of URLs
  and not at most \<^verbatim>\<open>max_size\<close>. Nothing ever trims it. (The index of the plain variant
  keeps the bound for every capacity above zero: \<open>plain_capacity_invariant\<close>,
  \<open>run_plain_defined\<close>.)
\<close>

theorem functools_index_exceeds_capacity:
  assumes "distinct urls" and "length ts = length urls"
  shows "get_cache_size_functools
           (run_functools MD5 (zip (map served_at ts) (map Get urls))
              (ImageCache_functools dir n fs)) = length urls"
  using assms fold_touch_url_fresh[of "[]" urls]
  by (simp add: get_cache_size_functools_def access_order_run_gets ImageCache_functools_def)

theorem functools_index_exceeds_capacity_witness:
  "distinct test_urls \<and> length [1, 2, 3, 4 :: nat] = length test_urls \<and>
   max_size (ImageCache_functools ''.image_cache'' 3 []) = 3 \<and>
   get_cache_size_functools
     (run_functools example_digest (zip (map served_at [1, 2, 3, 4]) (map Get test_urls))
        (ImageCache_functools ''.image_cache'' 3 [])) = 4"
  using functools_index_exceeds_capacity[where urls = test_urls and ts = "[1, 2, 3, 4]"
      and ?MD5.0 = example_digest and dir = "''.image_cache''" and n = 3 and fs = "[]"]
  by (simp add: test_urls_def ImageCache_functools_def)

text \<open>
  Claim C2, on both variants, with capacity 3, an empty directory and four URLs whose
  cache paths differ: after the four are fetched in order, the first is still cached and
  the directory holds four files. The plain variant drops the first URL from its index
  but \<^verbatim>\<open>evict_lru\<close> removes no file; the functools variant removes a file only when
  the directory already holds more than \<^verbatim>\<open>max_size\<close> files before the new one is
  written, and has evicted nothing.
\<close>

theorem first_fetched_still_cached:
  assumes "distinct (map (get_cache_path MD5 dir) [u1, u2, u3, u4])"
  shows
  "(\<exists>c. run_plain MD5 (zip (map served_at [1, 2, 3, 4]) (map Get [u1, u2, u3, u4]))
          (ImageCache_plain dir 3 []) = Some c \<and>
        is_cached MD5 c u1 \<and> length (files c) = 4 \<and>
        map fst (lru_cache c) = [u4, u3, u2]) \<and>
   (let c = run_functools MD5 (zip (map served_at [1, 2, 3, 4]) (map Get [u1, u2, u3, u4]))
              (ImageCache_functools dir 3 [])
    in is_cached MD5 c u1 \<and> length (files c) = 4 \<and> console c =
         [Cached_image (get_cache_path MD5 dir u1) 11, Cached_image (get_cache_path MD5 dir u2) 11,
          Cached_image (get_cache_path MD5 dir u3) 11, Cached_image (get_cache_path MD5 dir u4) 11])"
proof -
  from assms have urls: "distinct [u1, u2, u3, u4]"
    by (rule distinct_map[THEN iffD1, THEN conjunct1])
  have plain: "\<exists>c. run_plain MD5 (zip (map served_at [1, 2, 3, 4]) (map Get [u1, u2, u3, u4]))
          (ImageCache_plain dir 3 []) = Some c \<and>
        is_cached MD5 c u1 \<and> length (files c) = 4 \<and>
        map fst (lru_cache c) = [u4, u3, u2]"
    using assms[simplified] urls[simplified]
    by (elim conjE) (simp add: get_plain_served_put get_plain_hit state_simps)
  have functools: "(let c = run_functools MD5 (zip (map served_at [1, 2, 3, 4]) (map Get [u1, u2, u3, u4]))
              (ImageCache_functools dir 3 [])
    in is_cached MD5 c u1 \<and> length (files c) = 4 \<and> console c =
         [Cached_image (get_cache_path MD5 dir u1) 11, Cached_image (get_cache_path MD5 dir u2) 11,
          Cached_image (get_cache_path MD5 dir u3) 11, Cached_image (get_cache_path MD5 dir u4) 11])"
    using assms[simplified] urls[simplified]
    by (elim conjE) (simp add: get_functools_served get_functools_hit state_simps)
  from plain functools show ?thesis by (rule conjI)
qed

theorem first_fetched_still_cached_witness:
  "distinct (map (get_cache_path example_digest ''.image_cache'')
      [''https://httpbin.org/image/jpeg'', ''https://httpbin.org/image/png'',
       ''https://httpbin.org/image/webp'', ''https://httpbin.org/image/svg'']) \<and>
   (\<exists>c. run_plain example_digest
          (zip (map served_at [1, 2, 3, 4])
             (map Get [''https://httpbin.org/image/jpeg'', ''https://httpbin.org/image/png'',
                       ''https://httpbin.org/image/webp'', ''https://httpbin.org/image/svg'']))
          (ImageCache_plain ''.image_cache'' 3 []) = Some c \<and>
        is_cached example_digest c ''https://httpbin.org/image/jpeg'' \<and>
        length (files c) = 4 \<and>
        map fst (lru_cache c) =
          [''https://httpbin.org/image/svg'', ''https://httpbin.org/image/webp'',
           ''https://httpbin.org/image/png'']) \<and>
   (let c = run_functools example_digest
          (zip (map served_at [1, 2, 3, 4])
             (map Get [''https://httpbin.org/image/jpeg'', ''https://httpbin.org/image/png'',
                       ''https://httpbin.org/image/webp'', ''https://httpbin.org/image/svg'']))
          (ImageCache_functools ''.image_cache'' 3 [])
    in is_cached example_digest c ''https://httpbin.org/image/jpeg'' \<and>
       length (files c) = 4)"
  using first_fetched_still_cached[where ?MD5.0 = example_digest and dir = "''.image_cache''"
      and ?u1.0 = "''https://httpbin.org/image/jpeg''" and ?u2.0 = "''https://httpbin.org/image/png''"
      and ?u3.0 = "''https://httpbin.org/image/webp''" and ?u4.0 = "''https://httpbin.org/image/svg''"]
  by (simp add: example_paths Let_def)

text \<open>
  Claim C3, on both variants, with capacity 3, an empty directory and URLs A, B, C, D, E
  whose cache paths differ. After A, B, C are fetched, A is hit and D is fetched, the
  plain variant's index has dropped B, but B's file is still cached. The functools
  variant has evicted nothing: all four are cached; and the next fetch, of E, removes the
  file of A, the oldest by modification time, not that of B.
\<close>

theorem lru_order_not_followed:
  assumes "distinct (map (get_cache_path MD5 dir) [A, B, C, D, E])"
  shows
  "(\<exists>c. run_plain MD5
           [(served_at 1, Get A), (served_at 2, Get B), (served_at 3, Get C),
            (served_at 4, Get A), (served_at 5, Get D)]
           (ImageCache_plain dir 3 []) = Some c \<and>
        map fst (lru_cache c) = [D, A, C] \<and>
        is_cached MD5 c B \<and> length (files c) = 4) \<and>
   (let c = run_functools MD5
              [(served_at 1, Get A), (served_at 2, Get B), (served_at 3, Get C),
               (served_at 4, Get A), (served_at 5, Get D)]
              (ImageCache_functools dir 3 []);
        c' = call_functools MD5 (served_at 6, Get E) c
    in requests c = [A, B, C, D] \<and>
       access_order c = [B, C, A, D] \<and>
       is_cached MD5 c A \<and> is_cached MD5 c B \<and> is_cached MD5 c C \<and> is_cached MD5 c D \<and>
       \<not> is_cached MD5 c' A \<and> is_cached MD5 c' B)"
proof -
  from assms have urls: "distinct [A, B, C, D, E]"
    by (rule distinct_map[THEN iffD1, THEN conjunct1])
  have plain: "\<exists>c. run_plain MD5
           [(served_at 1, Get A), (served_at 2, Get B), (served_at 3, Get C),
            (served_at 4, Get A), (served_at 5, Get D)]
           (ImageCache_plain dir 3 []) = Some c \<and>
        map fst (lru_cache c) = [D, A, C] \<and>
        is_cached MD5 c B \<and> length (files c) = 4"
    using assms[simplified] urls[simplified]
    by (elim conjE) (simp add: get_plain_served_put get_plain_hit state_simps)
  have functools: "(let c = run_functools MD5
              [(served_at 1, Get A), (served_at 2, Get B), (served_at 3, Get C),
               (served_at 4, Get A), (served_at 5, Get D)]
              (ImageCache_functools dir 3 []);
        c' = call_functools MD5 (served_at 6, Get E) c
    in requests c = [A, B, C, D] \<and>
       access_order c = [B, C, A, D] \<and>
       is_cached MD5 c A \<and> is_cached MD5 c B \<and> is_cached MD5 c C \<and> is_cached MD5 c D \<and>
       \<not> is_cached MD5 c' A \<and> is_cached MD5 c' B)"
    using assms[simplified] urls[simplified]
    by (elim conjE)
       (simp add: get_functools_served get_functools_hit state_simps)
  from plain functools show ?thesis by (rule conjI)
qed

theorem lru_order_not_followed_witness:
  "distinct (map (get_cache_path example_digest ''.image_cache'')
      [''https://httpbin.org/image/jpeg'', ''https://httpbin.org/image/png'',
       ''https://httpbin.org/image/webp'', ''https://httpbin.org/image/svg'',
       ''https://httpbin.org/image/gif'']) \<and>
   (\<exists>c. run_plain example_digest
           [(served_at 1, Get ''https://httpbin.org/image/jpeg''),
            (served_at 2, Get ''https://httpbin.org/image/png''),
            (served_at 3, Get ''https://httpbin.org/image/webp''),
            (served_at 4, Get ''https://httpbin.org/image/jpeg''),
            (served_at 5, Get ''https://httpbin.org/image/svg'')]
           (ImageCache_plain ''.image_cache'' 3 []) = Some c \<and>
        map fst (lru_cache c) =
          [''https://httpbin.org/image/svg'', ''https://httpbin.org/image/jpeg'',
           ''https://httpbin.org/image/webp''] \<and>
        is_cached example_digest c ''https://httpbin.org/image/png'' \<and>
        length (files c) = 4) \<and>
   (let c = run_functools example_digest
              [(served_at 1, Get ''https://httpbin.org/image/jpeg''),
               (served_at 2, Get ''https://httpbin.org/image/png''),
               (served_at 3, Get ''https://httpbin.org/image/webp''),
               (served_at 4, Get ''https://httpbin.org/image/jpeg''),
               (served_at 5, Get ''https://httpbin.org/image/svg'')]
              (ImageCache_functools ''.image_cache'' 3 []);
        c' = call_functools example_digest (served_at 6, Get ''https://httpbin.org/image/gif'') c
    in requests c =
         [''https://httpbin.org/image/jpeg'', ''https://httpbin.org/image/png'',
          ''https://httpbin.org/image/webp'', ''https://httpbin.org/image/svg''] \<and>
       access_order c =
         [''https://httpbin.org/image/png'', ''https://httpbin.org/image/webp'',
          ''https://httpbin.org/image/jpeg'', ''https://httpbin.org/image/svg''] \<and>
       is_cached example_digest c ''https://httpbin.org/image/jpeg'' \<and>
       is_cached example_digest c ''https://httpbin.org/image/png'' \<and>
       is_cached example_digest c ''https://httpbin.org/image/webp'' \<and>
       is_cached example_digest c ''https://httpbin.org/image/svg'' \<and>
       \<not> is_cached example_digest c' ''https://httpbin.org/image/jpeg'' \<and>
       is_cached example_digest c' ''https://httpbin.org/image/png'')"
  using lru_order_not_followed[where ?MD5.0 = example_digest and dir = "''.image_cache''"
      and A = "''https://httpbin.org/image/jpeg''" and B = "''https://httpbin.org/image/png''"
      and C = "''https://httpbin.org/image/webp''" and D = "''https://httpbin.org/image/svg''"
      and E = "''https://httpbin.org/image/gif''"]
  by (simp add: example_paths Let_def)

end
